theory Spec2Isabelle
  imports
    Complex_Main
    "HOL-Library.Char_ord"
    "HOL-Library.List_Lexorder"
    "HOL-Library.Product_Lexorder"
begin

section \<open>Common modelling conventions\<close>

text \<open>
  The services of the CMS work on ORM rows held in relational tables.  A table is
  modelled as the list of its rows, a row as a record with the columns the service code
  reads or writes.  Primary keys and foreign keys are natural numbers, Python integers
  are \<open>int\<close>, nullable columns are options.  The \<open>float\<close> column \<open>Post.rating\<close> is modelled
  by exact rational arithmetic.  Every exception the code can raise is a value of
  \<open>error\<close>; a service returns \<open>Inl e\<close> where the Python raises.
\<close>

datatype error =
    MultipleResultsFound
  | ZeroDivisionError
  | HTTP_404_NOT_FOUND
  | HTTP_400_BAD_REQUEST
  | IntegrityError
  | MissingGreenlet

text \<open>
  SQLAlchemy's \<open>Result.scalar_one_or_none()\<close>: no row gives \<open>None\<close>, one row gives the
  row, more than one row raises \<open>MultipleResultsFound\<close>.
\<close>

fun scalar_one_or_none :: "'a list \<Rightarrow> error + 'a option" where
  "scalar_one_or_none [] = Inr None"
| "scalar_one_or_none [r] = Inr (Some r)"
| "scalar_one_or_none (r # r' # rs) = Inl MultipleResultsFound"

text \<open>The identifier an autoincrement primary key gives to a new row.\<close>

definition next_id :: "nat list \<Rightarrow> nat" where
  "next_id ids = Suc (fold max ids 0)"

text \<open>
  The voter filter shared by \<open>PostService.rate_post\<close> and \<open>CommentService.vote\<close>:
  \<^verbatim>\<open>or_(Row.user_id == user_id if user_id else False, Row.ip_address == ip)\<close>.
  Python's truth test of \<open>user_id\<close> is false for \<open>None\<close> and for \<open>0\<close>.
\<close>

definition voter_matches :: "nat option \<Rightarrow> string \<Rightarrow> nat option \<Rightarrow> string \<Rightarrow> bool" where
  "voter_matches row_user_id row_ip user_id ip =
     ((case user_id of
         None \<Rightarrow> False
       | Some u \<Rightarrow> if u \<noteq> 0 then row_user_id = Some u else False)
      \<or> row_ip = ip)"

section \<open>Comments and comment votes\<close>

text \<open>\<open>app/models/comment.py\<close>: the columns of \<open>Comment\<close> and \<open>CommentVote\<close>.\<close>

record comment =
  comment_id :: nat
  content :: string
  comment_post_id :: nat
  comment_parent_id :: "nat option"
  comment_author_id :: "nat option"
  is_approved :: bool
  is_pinned :: bool
  likes_count :: int
  dislikes_count :: int
  created_at :: int

record comment_vote =
  cv_id :: nat
  cv_comment_id :: nat
  cv_user_id :: "nat option"
  cv_ip_address :: string
  cv_vote :: int

text \<open>
  \<open>CommentService.vote\<close> (\<open>app/services/comment.py\<close>).  The state is the comment row
  passed in and the \<open>comment_votes\<close> table; both are returned updated.  The pair the
  Python returns is \<open>(likes_count, dislikes_count)\<close> of the returned comment.
\<close>

definition vote ::
  "comment \<Rightarrow> int \<Rightarrow> nat option \<Rightarrow> string \<Rightarrow> comment_vote list
     \<Rightarrow> error + (comment \<times> comment_vote list)" where
  "vote c v user_id ip tbl =
     (case scalar_one_or_none
             (filter (\<lambda>r. cv_comment_id r = comment_id c
                          \<and> voter_matches (cv_user_id r) (cv_ip_address r) user_id ip) tbl) of
        Inl e \<Rightarrow> Inl e
      | Inr (Some existing_vote) \<Rightarrow>
          (let old_vote = cv_vote existing_vote in
           if v = 0 then
             (let tbl' = filter (\<lambda>r. cv_id r \<noteq> cv_id existing_vote) tbl in
              if old_vote = 1
              then Inr (c\<lparr>likes_count := likes_count c - 1\<rparr>, tbl')
              else Inr (c\<lparr>dislikes_count := dislikes_count c - 1\<rparr>, tbl'))
           else
             (let tbl' = map (\<lambda>r. if cv_id r = cv_id existing_vote
                                   then r\<lparr>cv_vote := v\<rparr> else r) tbl in
              if old_vote \<noteq> v then
                (if v = 1
                 then Inr (c\<lparr>likes_count := likes_count c + 1,
                             dislikes_count := dislikes_count c - 1\<rparr>, tbl')
                 else Inr (c\<lparr>likes_count := likes_count c - 1,
                             dislikes_count := dislikes_count c + 1\<rparr>, tbl'))
              else Inr (c, tbl')))
      | Inr None \<Rightarrow>
          (if v \<noteq> 0 then
             (let new_vote = \<lparr>cv_id = next_id (map cv_id tbl), cv_comment_id = comment_id c,
                              cv_user_id = user_id, cv_ip_address = ip, cv_vote = v\<rparr>;
                  tbl' = tbl @ [new_vote] in
              if v = 1
              then Inr (c\<lparr>likes_count := likes_count c + 1\<rparr>, tbl')
              else Inr (c\<lparr>dislikes_count := dislikes_count c + 1\<rparr>, tbl'))
           else Inr (c, tbl)))"

text \<open>
  A sequence of vote requests on one comment, each \<open>(vote, user_id, ip)\<close>; the first
  exception ends the sequence.
\<close>

fun vote_all ::
  "comment \<Rightarrow> comment_vote list \<Rightarrow> (int \<times> nat option \<times> string) list
     \<Rightarrow> error + (comment \<times> comment_vote list)" where
  "vote_all c tbl [] = Inr (c, tbl)"
| "vote_all c tbl ((v, user_id, ip) # reqs) =
     (case vote c v user_id ip tbl of
        Inl e \<Rightarrow> Inl e
      | Inr (c', tbl') \<Rightarrow> vote_all c' tbl' reqs)"

text \<open>The counters the route reports after a sequence of votes.\<close>

definition counts_after ::
  "error + (comment \<times> comment_vote list) \<Rightarrow> error + (int \<times> int)" where
  "counts_after res =
     (case res of Inl e \<Rightarrow> Inl e | Inr (c, tbl) \<Rightarrow> Inr (likes_count c, dislikes_count c))"

section \<open>Posts and post ratings\<close>

text \<open>\<open>app/models/post.py\<close>: the columns of \<open>Post\<close> and \<open>PostRating\<close> the services use.\<close>

record post =
  post_id :: nat
  post_title :: string
  post_slug :: string
  rating :: rat
  votes_count :: int

record post_rating =
  pr_id :: nat
  pr_post_id :: nat
  pr_user_id :: "nat option"
  pr_ip_address :: string
  pr_rating :: int

text \<open>
  \<open>PostService.rate_post\<close> (\<open>app/services/post.py\<close>).  The post row and the
  \<open>post_ratings\<close> table are the state; the Python returns \<open>(post.rating, post.votes_count)\<close>
  of the updated post.  The division is Python's true division, which raises
  \<open>ZeroDivisionError\<close> on a zero \<open>votes_count\<close>.
\<close>

definition rate_post ::
  "post \<Rightarrow> int \<Rightarrow> nat option \<Rightarrow> string \<Rightarrow> post_rating list
     \<Rightarrow> error + (post \<times> post_rating list)" where
  "rate_post p r user_id ip tbl =
     (case scalar_one_or_none
             (filter (\<lambda>x. pr_post_id x = post_id p
                          \<and> voter_matches (pr_user_id x) (pr_ip_address x) user_id ip) tbl) of
        Inl e \<Rightarrow> Inl e
      | Inr (Some existing_rating) \<Rightarrow>
          (let old_rating = pr_rating existing_rating;
               tbl' = map (\<lambda>x. if pr_id x = pr_id existing_rating
                                 then x\<lparr>pr_rating := r\<rparr> else x) tbl in
           if votes_count p = 0 then Inl ZeroDivisionError
           else Inr (p\<lparr>rating := (rating p * of_int (votes_count p) - of_int old_rating + of_int r)
                               / of_int (votes_count p)\<rparr>, tbl'))
      | Inr None \<Rightarrow>
          (let new_rating = \<lparr>pr_id = next_id (map pr_id tbl), pr_post_id = post_id p,
                               pr_user_id = user_id, pr_ip_address = ip, pr_rating = r\<rparr>;
               tbl' = tbl @ [new_rating];
               p' = p\<lparr>votes_count := votes_count p + 1\<rparr> in
           if votes_count p' = 0 then Inl ZeroDivisionError
           else Inr (p'\<lparr>rating := (rating p' * of_int (votes_count p' - 1) + of_int r)
                                 / of_int (votes_count p')\<rparr>, tbl')))"

text \<open>A sequence of rating requests on one post, each \<open>(rating, user_id, ip)\<close>.\<close>

fun rate_all ::
  "post \<Rightarrow> post_rating list \<Rightarrow> (int \<times> nat option \<times> string) list
     \<Rightarrow> error + (post \<times> post_rating list)" where
  "rate_all p tbl [] = Inr (p, tbl)"
| "rate_all p tbl ((r, user_id, ip) # reqs) =
     (case rate_post p r user_id ip tbl of
        Inl e \<Rightarrow> Inl e
      | Inr (p', tbl') \<Rightarrow> rate_all p' tbl' reqs)"

text \<open>The non-zero user ids and the IP addresses a list of requests presents.\<close>

definition request_user_ids :: "(int \<times> nat option \<times> string) list \<Rightarrow> nat list" where
  "request_user_ids reqs =
     concat (map (\<lambda>(r, user_id, ip).
        case user_id of None \<Rightarrow> [] | Some u \<Rightarrow> if u \<noteq> 0 then [u] else []) reqs)"

definition request_ips :: "(int \<times> nat option \<times> string) list \<Rightarrow> string list" where
  "request_ips reqs = map (\<lambda>(r, user_id, ip). ip) reqs"

text \<open>The user ids and IP addresses stored in the rating rows of post \<open>k\<close>.\<close>

definition rated_by_user :: "nat \<Rightarrow> post_rating list \<Rightarrow> nat set" where
  "rated_by_user k tbl = {u. \<exists>x \<in> set tbl. pr_post_id x = k \<and> pr_user_id x = Some u}"

definition rated_by_ip :: "nat \<Rightarrow> post_rating list \<Rightarrow> string set" where
  "rated_by_ip k tbl = {a. \<exists>x \<in> set tbl. pr_post_id x = k \<and> pr_ip_address x = a}"

text \<open>The pair \<open>rate_post\<close> returns to the route after a sequence of requests.\<close>

definition rating_after ::
  "error + (post \<times> post_rating list) \<Rightarrow> error + (rat \<times> int)" where
  "rating_after res =
     (case res of Inl e \<Rightarrow> Inl e | Inr (p, tbl) \<Rightarrow> Inr (rating p, votes_count p))"

section \<open>Slug assignment\<close>

text \<open>
  Python's \<open>str\<close> of a non-negative integer, as the f-string \<^verbatim>\<open>f"{base_slug}-{counter}"\<close>
  formats the counter: its decimal digits, most significant first.
\<close>

definition digit_char :: "nat \<Rightarrow> char" where
  "digit_char d = ''0123456789'' ! d"

fun str :: "nat \<Rightarrow> string" where
  "str n = (if n < 10 then [digit_char n] else str (n div 10) @ [digit_char (n mod 10)])"

text \<open>Reading a decimal numeral back, the inverse of \<open>str\<close> used to show it injective.\<close>

definition digit_val :: "char \<Rightarrow> nat" where
  "digit_val c = of_char c - 48"

definition nat_of_str :: "string \<Rightarrow> nat" where
  "nat_of_str s = foldl (\<lambda>a c. 10 * a + digit_val c) 0 s"


text \<open>The candidate \<^verbatim>\<open>f"{base_slug}-{counter}"\<close>.\<close>

definition suffixed :: "string \<Rightarrow> nat \<Rightarrow> string" where
  "suffixed base_slug counter = base_slug @ ''-'' @ str counter"

text \<open>
  The counters \<open>k \<ge> c\<close> whose candidate \<open>b-k\<close> is in a list of slugs: the measure of
  the loops below.
\<close>

definition taken_from :: "string list \<Rightarrow> string \<Rightarrow> nat \<Rightarrow> nat set" where
  "taken_from slugs b c = {k. c \<le> k \<and> suffixed b k \<in> set slugs}"

text \<open>
  The loop shared by \<open>PostService.create\<close> and \<open>CategoryService.create\<close>:
  \<^verbatim>\<open>while await self.get_by_slug(slug): slug = f"{base_slug}-{counter}"; counter += 1\<close>.
  \<open>get_by_slug\<close> selects the rows whose slug column \<open>slug_of\<close> equals \<open>slug\<close> and applies
  \<open>scalar_one_or_none\<close>; a row found is true, \<open>None\<close> is false.  The loop state is
  \<open>(slug, counter)\<close>.
\<close>

function unique_slug ::
  "('r \<Rightarrow> string) \<Rightarrow> 'r list \<Rightarrow> string \<Rightarrow> string \<Rightarrow> nat \<Rightarrow> error + string" where
  "unique_slug slug_of tbl base_slug slug counter =
     (case scalar_one_or_none (filter (\<lambda>x. slug_of x = slug) tbl) of
        Inl e \<Rightarrow> Inl e
      | Inr None \<Rightarrow> Inr slug
      | Inr (Some existing) \<Rightarrow>
          unique_slug slug_of tbl base_slug (suffixed base_slug counter) (counter + 1))"
  by pat_completeness auto

text \<open>
  \<open>app/models/category.py\<close>: the columns of \<open>Category\<close>.  The relationship \<open>children\<close> is
  not a column: it is the set of rows whose \<open>parent_id\<close> is this row's id.
\<close>

record category =
  category_id :: nat
  category_name :: string
  category_slug :: string
  parent_id :: "nat option"
  is_active :: bool
  show_in_menu :: bool
  position :: int
  posts_count :: int

text \<open>\<open>app/models/post.py\<close>: the columns of \<open>Tag\<close>.\<close>

record tag =
  tag_id :: nat
  tag_name :: string
  tag_slug :: string
  tag_posts_count :: int

text \<open>
  The tables the post and category services share: \<open>posts\<close>, \<open>categories\<close>, \<open>tags\<close> and
  the association tables \<open>post_categories\<close> of \<open>(post_id, category_id)\<close> pairs and
  \<open>post_tags\<close> of \<open>(post_id, tag_id)\<close> pairs.
\<close>

record db =
  posts :: "post list"
  categories :: "category list"
  post_categories :: "(nat \<times> nat) list"
  tags :: "tag list"
  post_tags :: "(nat \<times> nat) list"

text \<open>The fields of the request schemas \<open>PostCreate\<close> and \<open>CategoryCreate\<close> that reach the tables modelled.\<close>

record PostCreate =
  pc_title :: string
  pc_category_ids :: "nat list"
  pc_tags :: "string list"

record CategoryCreate =
  cc_name :: string
  cc_parent_id :: "nat option"
  cc_is_active :: bool
  cc_show_in_menu :: bool
  cc_position :: int

text \<open>
  \<open>PostService._set_categories\<close>: the categories whose id is in \<open>category_ids\<close> are
  selected and assigned to the relationship \<open>post.categories\<close>.  The assignment reads the
  collection it replaces.  \<open>loaded\<close> says whether that collection is loaded on the post
  object: it is on a post fetched by \<open>get_by_id\<close> (\<open>selectinload\<close>), and it is not on the post
  \<open>create\<close> has just flushed, where the read is a lazy load, which the async session
  refuses with \<open>MissingGreenlet\<close>.  On a loaded collection the association rows of the post
  become those of the selected categories: rows of categories no longer selected are
  deleted, rows of newly selected ones are inserted.  No column of \<open>categories\<close> is
  written.
\<close>

definition PostService_set_categories :: "bool \<Rightarrow> post \<Rightarrow> nat list \<Rightarrow> db \<Rightarrow> error + db" where
  "PostService_set_categories loaded p category_ids d =
     (let selected = map category_id
                       (filter (\<lambda>c. category_id c \<in> set category_ids) (categories d)) in
      if \<not> loaded then Inl MissingGreenlet
      else Inr (d\<lparr>post_categories :=
                    filter (\<lambda>(pid, cid). pid \<noteq> post_id p \<or> cid \<in> set selected) (post_categories d)
                    @ map (\<lambda>cid. (post_id p, cid))
                        (filter (\<lambda>cid. (post_id p, cid) \<notin> set (post_categories d)) selected)\<rparr>))"

text \<open>
  The loop of \<open>PostService._set_tags\<close>: each name is looked up by its slug; a tag that does
  not exist is inserted and flushed, which raises \<open>IntegrityError\<close> when the name is taken
  (\<open>Tag.name\<close> is unique).  The result is the list \<open>tags\<close> and the tag table.
\<close>

fun set_tags_loop ::
  "(string \<Rightarrow> string) \<Rightarrow> string list \<Rightarrow> tag list \<Rightarrow> error + (tag list \<times> tag list)" where
  "set_tags_loop slugify [] tbl = Inr ([], tbl)"
| "set_tags_loop slugify (name # names) tbl =
     (case scalar_one_or_none (filter (\<lambda>t. tag_slug t = slugify name) tbl) of
        Inl e \<Rightarrow> Inl e
      | Inr (Some t) \<Rightarrow>
          (case set_tags_loop slugify names tbl of
             Inl e \<Rightarrow> Inl e
           | Inr (ts, tbl') \<Rightarrow> Inr (t # ts, tbl'))
      | Inr None \<Rightarrow>
          if name \<in> set (map tag_name tbl) then Inl IntegrityError
          else (let t = \<lparr>tag_id = next_id (map tag_id tbl), tag_name = name,
                          tag_slug = slugify name, tag_posts_count = 0\<rparr> in
                case set_tags_loop slugify names (tbl @ [t]) of
                  Inl e \<Rightarrow> Inl e
                | Inr (ts, tbl') \<Rightarrow> Inr (t # ts, tbl')))"

text \<open>
  \<open>PostService._set_tags\<close>: the loop, then the assignment to \<open>post.tags\<close>, which is as the
  assignment to \<open>post.categories\<close>.  The list can hold a tag twice; two association rows
  are then inserted for a tag that was not associated before, and the primary key of
  \<open>post_tags\<close> refuses the second.
\<close>

definition PostService_set_tags ::
  "(string \<Rightarrow> string) \<Rightarrow> bool \<Rightarrow> post \<Rightarrow> string list \<Rightarrow> db \<Rightarrow> error + db" where
  "PostService_set_tags slugify loaded p tag_names d =
     (case set_tags_loop slugify tag_names (tags d) of
        Inl e \<Rightarrow> Inl e
      | Inr (ts, tbl') \<Rightarrow>
          (let selected = map tag_id ts;
               added = filter (\<lambda>tid. (post_id p, tid) \<notin> set (post_tags d)) selected in
           if \<not> loaded then Inl MissingGreenlet
           else if \<not> distinct added then Inl IntegrityError
           else Inr (d\<lparr>tags := tbl',
                        post_tags :=
                          filter (\<lambda>(pid, tid). pid \<noteq> post_id p \<or> tid \<in> set selected) (post_tags d)
                          @ map (\<lambda>tid. (post_id p, tid)) added\<rparr>)))"

text \<open>
  \<open>PostService.create\<close>.  \<open>slugify\<close> is the function of the external package
  \<open>python-slugify\<close> and is a parameter.  The loop is \<open>unique_slug\<close> started at
  \<open>slug = base_slug\<close>, \<open>counter = 1\<close>.  The post is added and flushed; then, on a non-empty
  \<open>category_ids\<close>, \<open>_set_categories\<close> and, on a non-empty \<open>tags\<close>, \<open>_set_tags\<close> are called on
  it, with its collections not loaded.
\<close>

definition PostService_create ::
  "(string \<Rightarrow> string) \<Rightarrow> PostCreate \<Rightarrow> db \<Rightarrow> error + (post \<times> db)" where
  "PostService_create slugify data d =
     (let base_slug = slugify (pc_title data) in
      case unique_slug post_slug (posts d) base_slug base_slug 1 of
        Inl e \<Rightarrow> Inl e
      | Inr slug \<Rightarrow>
          (let p = \<lparr>post_id = next_id (map post_id (posts d)), post_title = pc_title data,
                     post_slug = slug, rating = 0, votes_count = 0\<rparr>;
               d1 = d\<lparr>posts := posts d @ [p]\<rparr>
           in case (if pc_category_ids data \<noteq> []
                    then PostService_set_categories False p (pc_category_ids data) d1
                    else Inr d1) of
                Inl e \<Rightarrow> Inl e
              | Inr d2 \<Rightarrow>
                  (case (if pc_tags data \<noteq> []
                         then PostService_set_tags slugify False p (pc_tags data) d2
                         else Inr d2) of
                     Inl e \<Rightarrow> Inl e
                   | Inr d3 \<Rightarrow> Inr (p, d3))))"

text \<open>
  \<open>CategoryService.create\<close>.  The column \<open>Category.name\<close> is declared \<open>unique=True\<close>, so
  the flush raises \<open>IntegrityError\<close> when the name is already in the table.
\<close>

definition CategoryService_create ::
  "(string \<Rightarrow> string) \<Rightarrow> CategoryCreate \<Rightarrow> db \<Rightarrow> error + (category \<times> db)" where
  "CategoryService_create slugify data d =
     (let base_slug = slugify (cc_name data) in
      case unique_slug category_slug (categories d) base_slug base_slug 1 of
        Inl e \<Rightarrow> Inl e
      | Inr slug \<Rightarrow>
          (let c = \<lparr>category_id = next_id (map category_id (categories d)),
                     category_name = cc_name data, category_slug = slug,
                     parent_id = cc_parent_id data, is_active = cc_is_active data,
                     show_in_menu = cc_show_in_menu data, position = cc_position data,
                     posts_count = 0\<rparr>
           in if cc_name data \<in> set (map category_name (categories d))
              then Inl IntegrityError
              else Inr (c, d\<lparr>categories := categories d @ [c]\<rparr>)))"



section \<open>Comment life cycle and retrieval\<close>

text \<open>The fields of the request schema \<open>CommentCreate\<close> that reach the columns modelled.\<close>

record CommentCreate =
  cmc_content :: string
  cmc_post_id :: nat
  cmc_parent_id :: "nat option"

text \<open>
  \<open>CommentService.create\<close>.  The constructor call sets the content, the post, the parent
  and the author; every other column takes its declared default:
  \<open>is_approved\<close> has \<open>default=True\<close>, \<open>is_pinned\<close> has \<open>default=False\<close>, both counters have
  \<open>default=0\<close>, and \<open>created_at\<close> is the clock reading \<open>now\<close>.
\<close>

definition CommentService_create ::
  "CommentCreate \<Rightarrow> nat option \<Rightarrow> int \<Rightarrow> comment list \<Rightarrow> comment \<times> comment list" where
  "CommentService_create data author_id now tbl =
     (let c = \<lparr>comment_id = next_id (map comment_id tbl), content = cmc_content data,
                comment_post_id = cmc_post_id data, comment_parent_id = cmc_parent_id data,
                comment_author_id = author_id, is_approved = True, is_pinned = False,
                likes_count = 0, dislikes_count = 0, created_at = now\<rparr>
      in (c, tbl @ [c]))"

text \<open>\<open>CommentService.update\<close>, \<open>approve\<close>, \<open>pin\<close> and \<open>unpin\<close>: one column is assigned.\<close>

definition CommentService_update :: "comment \<Rightarrow> string \<Rightarrow> comment" where
  "CommentService_update c new_content = c\<lparr>content := new_content\<rparr>"

definition CommentService_approve :: "comment \<Rightarrow> comment" where
  "CommentService_approve c = c\<lparr>is_approved := True\<rparr>"

definition CommentService_pin :: "comment \<Rightarrow> comment" where
  "CommentService_pin c = c\<lparr>is_pinned := True\<rparr>"

definition CommentService_unpin :: "comment \<Rightarrow> comment" where
  "CommentService_unpin c = c\<lparr>is_pinned := False\<rparr>"

text \<open>
  The relationship \<open>Comment.replies\<close>: the rows whose \<open>parent_id\<close> is the comment's id.
  \<open>selectinload\<close> loads all of them, with no filter and no limit.
\<close>

definition replies :: "comment list \<Rightarrow> comment \<Rightarrow> comment list" where
  "replies tbl c = filter (\<lambda>r. comment_parent_id r = Some (comment_id c)) tbl"

text \<open>
  \<open>ORDER BY is_pinned DESC, created_at DESC\<close>: ascending on the key
  \<open>(\<not> is_pinned, - created_at)\<close>, compared lexicographically.  Rows with equal keys keep
  their table order.
\<close>

definition comment_order_key :: "comment \<Rightarrow> bool \<times> int" where
  "comment_order_key c = (\<not> is_pinned c, - created_at c)"

text \<open>
  \<open>OFFSET\<close> and \<open>LIMIT\<close> as SQLite, the configured database, evaluates them: a negative
  offset counts as 0 and a negative limit is no limit.
\<close>

definition offset_limit :: "int \<Rightarrow> int \<Rightarrow> 'a list \<Rightarrow> 'a list" where
  "offset_limit ofs lmt rows =
     (let rest = (if ofs < 0 then rows else drop (nat ofs) rows)
      in if lmt < 0 then rest else take (nat lmt) rest)"

text \<open>
  \<open>CommentService.get_by_post\<close>.  Each returned comment is paired with its loaded
  \<open>replies\<close>; the second component is \<open>total\<close>.
\<close>

definition CommentService_get_by_post ::
  "nat \<Rightarrow> int \<Rightarrow> int \<Rightarrow> bool \<Rightarrow> comment list \<Rightarrow> (comment \<times> comment list) list \<times> nat" where
  "CommentService_get_by_post post_id' page per_page approved_only tbl =
     (let matching = filter (\<lambda>c. comment_post_id c = post_id' \<and> comment_parent_id c = None
                                \<and> (approved_only \<longrightarrow> is_approved c)) tbl;
          total = length matching;
          ordered = sort_key comment_order_key matching;
          offset = (page - 1) * per_page;
          comments = offset_limit offset per_page ordered
      in (map (\<lambda>c. (c, replies tbl c)) comments, total))"

text \<open>
  A thread used as an example: on post 1, comment 1 (approved, created at 10) with the
  reply 4, comment 2 (approved, pinned, created at 5), comment 3 (not approved) and
  comment 5 (approved, created at 15).
\<close>

definition example_thread :: "comment list" where
  "example_thread =
     [\<lparr>comment_id = 1, content = ''first'', comment_post_id = 1, comment_parent_id = None,
       comment_author_id = Some 1, is_approved = True, is_pinned = False,
       likes_count = 0, dislikes_count = 0, created_at = 10\<rparr>,
      \<lparr>comment_id = 2, content = ''read this'', comment_post_id = 1, comment_parent_id = None,
       comment_author_id = Some 2, is_approved = True, is_pinned = True,
       likes_count = 0, dislikes_count = 0, created_at = 5\<rparr>,
      \<lparr>comment_id = 3, content = ''spam'', comment_post_id = 1, comment_parent_id = None,
       comment_author_id = None, is_approved = False, is_pinned = False,
       likes_count = 0, dislikes_count = 0, created_at = 20\<rparr>,
      \<lparr>comment_id = 4, content = ''a reply'', comment_post_id = 1, comment_parent_id = Some 1,
       comment_author_id = Some 2, is_approved = False, is_pinned = False,
       likes_count = 0, dislikes_count = 0, created_at = 30\<rparr>,
      \<lparr>comment_id = 5, content = ''later'', comment_post_id = 1, comment_parent_id = None,
       comment_author_id = Some 3, is_approved = True, is_pinned = False,
       likes_count = 0, dislikes_count = 0, created_at = 15\<rparr>]"

section \<open>Category tree, update and deletion\<close>

text \<open>\<open>CategoryService.get_by_id\<close>: the rows with that primary key, through \<open>scalar_one_or_none\<close>.\<close>

definition CategoryService_get_by_id :: "nat \<Rightarrow> category list \<Rightarrow> error + category option" where
  "CategoryService_get_by_id k tbl = scalar_one_or_none (filter (\<lambda>c. category_id c = k) tbl)"

text \<open>
  The relationship \<open>Category.children\<close>: the rows whose \<open>parent_id\<close> is the category's id.
  The relationship declares neither a filter nor an \<open>order_by\<close>; the rows are taken in
  table order.
\<close>

definition children :: "category list \<Rightarrow> category \<Rightarrow> category list" where
  "children tbl c = filter (\<lambda>x. parent_id x = Some (category_id c)) tbl"

text \<open>\<open>ORDER BY position, name\<close>: ascending on the pair, compared lexicographically.\<close>

definition category_order_key :: "category \<Rightarrow> int \<times> string" where
  "category_order_key c = (position c, category_name c)"

text \<open>
  \<open>CategoryService.get_tree\<close>: the root rows, filtered by \<open>is_active\<close> when \<open>active_only\<close>,
  ordered, each with its loaded \<open>children\<close>.
\<close>

definition CategoryService_get_tree :: "bool \<Rightarrow> category list \<Rightarrow> (category \<times> category list) list" where
  "CategoryService_get_tree active_only tbl =
     map (\<lambda>c. (c, children tbl c))
       (sort_key category_order_key
          (filter (\<lambda>c. parent_id c = None \<and> (active_only \<longrightarrow> is_active c)) tbl))"

text \<open>
  The request schema \<open>CategoryUpdate\<close>.  \<open>model_dump(exclude_unset=True)\<close> keeps the fields
  the request sets: \<open>None\<close> is a field left unset.  \<open>parent_id\<close> is nullable, so a request can
  set it to null (\<open>Some None\<close>) or to an id (\<open>Some (Some k)\<close>).
\<close>

record CategoryUpdate =
  cu_name :: "string option"
  cu_parent_id :: "nat option option"
  cu_is_active :: "bool option"
  cu_show_in_menu :: "bool option"
  cu_position :: "int option"

text \<open>
  The loop shared by \<open>CategoryService.update\<close> and \<open>PostService.update\<close>:
  \<^verbatim>\<open>while True: existing = get_by_slug(new_slug);
  if not existing or existing.id == category.id: break;
  new_slug = f"{base_slug}-{counter}"; counter += 1\<close>.
  \<open>slug_of\<close> and \<open>id_of\<close> are the slug and id columns of the table, \<open>own_id\<close> the id of the
  row being updated.
\<close>

function unique_slug_update ::
  "('r \<Rightarrow> string) \<Rightarrow> ('r \<Rightarrow> nat) \<Rightarrow> 'r list \<Rightarrow> nat \<Rightarrow> string \<Rightarrow> string \<Rightarrow> nat
     \<Rightarrow> error + string" where
  "unique_slug_update slug_of id_of tbl own_id base_slug new_slug counter =
     (case scalar_one_or_none (filter (\<lambda>x. slug_of x = new_slug) tbl) of
        Inl e \<Rightarrow> Inl e
      | Inr None \<Rightarrow> Inr new_slug
      | Inr (Some existing) \<Rightarrow>
          if id_of existing = own_id then Inr new_slug
          else unique_slug_update slug_of id_of tbl own_id base_slug
                 (suffixed base_slug counter) (counter + 1))"
  by pat_completeness auto

text \<open>
  \<open>CategoryService.update\<close>: a new slug when the name changes it, then one \<open>setattr\<close> for
  each field the request sets.  The flush raises \<open>IntegrityError\<close> when the new name is the
  name of another row (\<open>Category.name\<close> is unique).  \<open>parent_id\<close> is assigned as given.
\<close>

definition CategoryService_update ::
  "(string \<Rightarrow> string) \<Rightarrow> category \<Rightarrow> CategoryUpdate \<Rightarrow> db \<Rightarrow> error + (category \<times> db)" where
  "CategoryService_update slugify c data d =
     (case (case cu_name data of
              None \<Rightarrow> Inr (category_slug c)
            | Some new_name \<Rightarrow>
                if slugify new_name \<noteq> category_slug c
                then unique_slug_update category_slug category_id (categories d) (category_id c)
                       (slugify new_name) (slugify new_name) 1
                else Inr (category_slug c)) of
        Inl e \<Rightarrow> Inl e
      | Inr slug \<Rightarrow>
          (let c' = c\<lparr>category_name := (case cu_name data of None \<Rightarrow> category_name c | Some n \<Rightarrow> n),
                       category_slug := slug,
                       parent_id := (case cu_parent_id data of None \<Rightarrow> parent_id c | Some p \<Rightarrow> p),
                       is_active := (case cu_is_active data of None \<Rightarrow> is_active c | Some b \<Rightarrow> b),
                       show_in_menu := (case cu_show_in_menu data of None \<Rightarrow> show_in_menu c | Some b \<Rightarrow> b),
                       position := (case cu_position data of None \<Rightarrow> position c | Some n \<Rightarrow> n)\<rparr>
           in if \<exists>x \<in> set (categories d). category_id x \<noteq> category_id c
                                            \<and> category_name x = category_name c'
              then Inl IntegrityError
              else Inr (c', d\<lparr>categories :=
                               map (\<lambda>x. if category_id x = category_id c then c' else x)
                                 (categories d)\<rparr>)))"

text \<open>
  The route \<open>update_category\<close> (\<open>PATCH /categories/{category_id}\<close>).  Its only check on
  \<open>parent_id\<close> is \<^verbatim>\<open>data.parent_id and data.parent_id == category_id\<close>, under the comment
  \<open>Prevent circular reference\<close>.
\<close>

definition update_category ::
  "(string \<Rightarrow> string) \<Rightarrow> nat \<Rightarrow> CategoryUpdate \<Rightarrow> db \<Rightarrow> error + (category \<times> db)" where
  "update_category slugify cid data d =
     (case CategoryService_get_by_id cid (categories d) of
        Inl e \<Rightarrow> Inl e
      | Inr None \<Rightarrow> Inl HTTP_404_NOT_FOUND
      | Inr (Some c) \<Rightarrow>
          if (case cu_parent_id data of
                Some (Some p) \<Rightarrow> p \<noteq> 0 \<and> p = cid
              | _ \<Rightarrow> False)
          then Inl HTTP_400_BAD_REQUEST
          else CategoryService_update slugify c data d)"

text \<open>\<open>CategoryService.increment_posts_count\<close> and \<open>decrement_posts_count\<close>.\<close>

definition CategoryService_increment_posts_count :: "category \<Rightarrow> category" where
  "CategoryService_increment_posts_count c = c\<lparr>posts_count := posts_count c + 1\<rparr>"

definition CategoryService_decrement_posts_count :: "category \<Rightarrow> category" where
  "CategoryService_decrement_posts_count c =
     (if posts_count c > 0 then c\<lparr>posts_count := posts_count c - 1\<rparr> else c)"

text \<open>
  The request schema \<open>PostUpdate\<close>: \<open>None\<close> is a field the request leaves unset.
\<close>

record PostUpdate =
  pu_title :: "string option"
  pu_category_ids :: "nat list option"
  pu_tags :: "string list option"

text \<open>\<open>PostService.get_by_id\<close>: the rows with that primary key, through \<open>scalar_one_or_none\<close>.\<close>

definition PostService_get_by_id :: "nat \<Rightarrow> post list \<Rightarrow> error + post option" where
  "PostService_get_by_id k tbl = scalar_one_or_none (filter (\<lambda>p. post_id p = k) tbl)"

text \<open>
  \<open>PostService.update\<close>: a new slug when the title changes it, the \<open>setattr\<close> of the fields
  set, then \<open>_set_categories\<close> when \<open>category_ids\<close> is not \<open>None\<close> and \<open>_set_tags\<close> when \<open>tags\<close>
  is not \<open>None\<close>.  \<open>loaded\<close> says whether the collections of the post object are loaded, as
  they are on a post fetched by \<open>get_by_id\<close>.
\<close>

definition PostService_update ::
  "(string \<Rightarrow> string) \<Rightarrow> bool \<Rightarrow> post \<Rightarrow> PostUpdate \<Rightarrow> db \<Rightarrow> error + (post \<times> db)" where
  "PostService_update slugify loaded p data d =
     (case (case pu_title data of
              None \<Rightarrow> Inr (post_slug p)
            | Some new_title \<Rightarrow>
                if slugify new_title \<noteq> post_slug p
                then unique_slug_update post_slug post_id (posts d) (post_id p)
                       (slugify new_title) (slugify new_title) 1
                else Inr (post_slug p)) of
        Inl e \<Rightarrow> Inl e
      | Inr slug \<Rightarrow>
          (let p' = p\<lparr>post_title := (case pu_title data of None \<Rightarrow> post_title p | Some t \<Rightarrow> t),
                       post_slug := slug\<rparr>;
               d1 = d\<lparr>posts := map (\<lambda>x. if post_id x = post_id p then p' else x) (posts d)\<rparr>
           in case (case pu_category_ids data of
                      None \<Rightarrow> Inr d1
                    | Some category_ids \<Rightarrow> PostService_set_categories loaded p' category_ids d1) of
                Inl e \<Rightarrow> Inl e
              | Inr d2 \<Rightarrow>
                  (case (case pu_tags data of
                           None \<Rightarrow> Inr d2
                         | Some tag_names \<Rightarrow> PostService_set_tags slugify loaded p' tag_names d2) of
                     Inl e \<Rightarrow> Inl e
                   | Inr d3 \<Rightarrow> Inr (p', d3))))"

text \<open>
  \<open>CategoryService.delete\<close>: the row is deleted; the ORM sets the \<open>parent_id\<close> of its loaded
  children to null and deletes its rows of the association table.
\<close>

definition CategoryService_delete :: "category \<Rightarrow> db \<Rightarrow> db" where
  "CategoryService_delete c d =
     d\<lparr>categories :=
         map (\<lambda>x. if parent_id x = Some (category_id c) then x\<lparr>parent_id := None\<rparr> else x)
           (filter (\<lambda>x. category_id x \<noteq> category_id c) (categories d)),
       post_categories := filter (\<lambda>(pid, cid). cid \<noteq> category_id c) (post_categories d)\<rparr>"

text \<open>
  The route \<open>delete_category\<close> (\<open>DELETE /categories/{category_id}\<close>): the response, and the
  tables after the request.
\<close>

definition delete_category :: "nat \<Rightarrow> db \<Rightarrow> (error + string) \<times> db" where
  "delete_category cid d =
     (case CategoryService_get_by_id cid (categories d) of
        Inl e \<Rightarrow> (Inl e, d)
      | Inr None \<Rightarrow> (Inl HTTP_404_NOT_FOUND, d)
      | Inr (Some c) \<Rightarrow>
          if posts_count c > 0 then (Inl HTTP_400_BAD_REQUEST, d)
          else (Inr ''Category deleted successfully'', CategoryService_delete c d))"

text \<open>
  Example tables: the active root category 1 with the inactive child 2, and the inactive
  root 3; one post, in no category.
\<close>

definition example_db :: db where
  "example_db =
     \<lparr>posts = [\<lparr>post_id = 1, post_title = ''hello-world'', post_slug = ''hello-world'',
                rating = 0, votes_count = 0\<rparr>],
      categories =
        [\<lparr>category_id = 1, category_name = ''News'', category_slug = ''news'', parent_id = None,
          is_active = True, show_in_menu = True, position = 0, posts_count = 0\<rparr>,
         \<lparr>category_id = 2, category_name = ''Archive'', category_slug = ''archive'',
          parent_id = Some 1, is_active = False, show_in_menu = True, position = 0,
          posts_count = 0\<rparr>,
         \<lparr>category_id = 3, category_name = ''Drafts'', category_slug = ''drafts'', parent_id = None,
          is_active = False, show_in_menu = False, position = 1, posts_count = 2\<rparr>],
      post_categories = [], tags = [], post_tags = []\<rparr>"

section \<open>Proofs: comment votes\<close>

lemma next_id_fresh_aux: "x \<in> set ids \<Longrightarrow> x \<le> fold max ids (m::nat)"
proof (induction ids arbitrary: m)
  case Nil
  then show ?case by simp
next
  case (Cons a ids)
  have mono: "\<And>k. k \<le> fold max ids k"
  proof -
    fix k :: nat
    have "\<And>j. j \<le> fold max ids j"
    proof (induction ids)
      case Nil
      show ?case by simp
    next
      case (Cons b bs)
      have "max b j \<le> fold max bs (max b j)" by (rule Cons.IH)
      then show ?case by simp
    qed
    then show "k \<le> fold max ids k" .
  qed
  show ?case
  proof (cases "x = a")
    case True
    have "max a m \<le> fold max ids (max a m)" by (rule mono)
    with True show ?thesis by simp
  next
    case False
    with Cons.prems have "x \<in> set ids" by simp
    then show ?thesis using Cons.IH by simp
  qed
qed

lemma next_id_fresh: "next_id ids \<notin> set ids"
proof
  assume "next_id ids \<in> set ids"
  then have "next_id ids \<le> fold max ids 0" by (rule next_id_fresh_aux)
  then show False by (simp add: next_id_def)
qed

lemma no_rows_filter:
  "\<forall>r \<in> set tbl. cv_comment_id r \<noteq> k \<Longrightarrow>
   filter (\<lambda>r. cv_comment_id r = k \<and> P r) tbl = []"
  by (induction tbl) auto

text \<open>The first vote of a voter on a comment without vote rows inserts one row.\<close>

lemma vote_first:
  assumes "\<forall>r \<in> set tbl. cv_comment_id r \<noteq> comment_id c" and "v \<noteq> 0"
  shows "vote c v user_id ip tbl =
           Inr (if v = 1 then c\<lparr>likes_count := likes_count c + 1\<rparr>
                else c\<lparr>dislikes_count := dislikes_count c + 1\<rparr>,
                tbl @ [\<lparr>cv_id = next_id (map cv_id tbl), cv_comment_id = comment_id c,
                         cv_user_id = user_id, cv_ip_address = ip, cv_vote = v\<rparr>])"
  using assms by (simp add: vote_def no_rows_filter Let_def)

text \<open>After that insertion the same voter's lookup finds exactly the inserted row.\<close>

lemma lookup_after_first:
  assumes "\<forall>r \<in> set tbl. cv_comment_id r \<noteq> k"
    and "ip2 = ip1 \<or> (\<exists>u. user_id = Some u \<and> u \<noteq> 0)"
  shows "filter (\<lambda>r. cv_comment_id r = k \<and> voter_matches (cv_user_id r) (cv_ip_address r) user_id ip2)
           (tbl @ [\<lparr>cv_id = n, cv_comment_id = k, cv_user_id = user_id,
                     cv_ip_address = ip1, cv_vote = v\<rparr>])
         = [\<lparr>cv_id = n, cv_comment_id = k, cv_user_id = user_id,
              cv_ip_address = ip1, cv_vote = v\<rparr>]"
  using assms by (auto simp: no_rows_filter voter_matches_def)

text \<open>
  Claim C3.  On a comment whose counters are both 0 and which has no vote row, for one
  voter (the same user id in both requests; the same IP address too unless the voter is
  authenticated), none of the three sequences raises, and:
  like then like leaves \<open>likes_count = 1\<close>, \<open>dislikes_count = 0\<close> and the one row the first
  like inserted, with vote 1 (the second like changes nothing);
  like then dislike leaves \<open>likes_count = 0\<close>, \<open>dislikes_count = 1\<close> and that row with its
  vote flipped to -1;
  like then vote 0 leaves both counters at 0 and no row of the voter: the comment and
  the table are as before the first vote.  Rows of other comments are never touched.
\<close>

theorem vote_sequences:
  assumes "likes_count c = 0" and "dislikes_count c = 0"
    and "\<forall>r \<in> set tbl. cv_comment_id r \<noteq> comment_id c"
    and "ip2 = ip1 \<or> (\<exists>u. user_id = Some u \<and> u \<noteq> 0)"
  shows "vote_all c tbl [(1, user_id, ip1), (1, user_id, ip2)]
           = Inr (c\<lparr>likes_count := 1\<rparr>,
                  tbl @ [\<lparr>cv_id = next_id (map cv_id tbl), cv_comment_id = comment_id c,
                           cv_user_id = user_id, cv_ip_address = ip1, cv_vote = 1\<rparr>])
       \<and> vote_all c tbl [(1, user_id, ip1), (- 1, user_id, ip2)]
           = Inr (c\<lparr>likes_count := 0, dislikes_count := 1\<rparr>,
                  tbl @ [\<lparr>cv_id = next_id (map cv_id tbl), cv_comment_id = comment_id c,
                           cv_user_id = user_id, cv_ip_address = ip1, cv_vote = - 1\<rparr>])
       \<and> vote_all c tbl [(1, user_id, ip1), (0, user_id, ip2)] = Inr (c, tbl)
       \<and> vote c 1 user_id ip1 tbl
           = Inr (c\<lparr>likes_count := 1\<rparr>,
                  tbl @ [\<lparr>cv_id = next_id (map cv_id tbl), cv_comment_id = comment_id c,
                           cv_user_id = user_id, cv_ip_address = ip1, cv_vote = 1\<rparr>])
       \<and> counts_after (vote_all c tbl [(1, user_id, ip1), (1, user_id, ip2)]) = Inr (1, 0)
       \<and> counts_after (vote_all c tbl [(1, user_id, ip1), (- 1, user_id, ip2)]) = Inr (0, 1)
       \<and> counts_after (vote_all c tbl [(1, user_id, ip1), (0, user_id, ip2)]) = Inr (0, 0)"
proof -
  let ?n = "next_id (map cv_id tbl)"
  let ?row = "\<lparr>cv_id = ?n, cv_comment_id = comment_id c,
               cv_user_id = user_id, cv_ip_address = ip1, cv_vote = 1\<rparr>"
  let ?c1 = "c\<lparr>likes_count := likes_count c + 1\<rparr>"
  have other: "cv_id r \<noteq> ?n" if "r \<in> set tbl" for r
  proof
    assume "cv_id r = ?n"
    with that have "?n \<in> set (map cv_id tbl)" by (metis imageI set_map)
    with next_id_fresh [of "map cv_id tbl"] show False by simp
  qed
  have upd: "map (\<lambda>r. if cv_id r = ?n then r\<lparr>cv_vote := v\<rparr> else r) tbl = tbl" for v
    by (rule map_idI) (simp add: other)
  have del: "filter (\<lambda>r. cv_id r \<noteq> ?n) tbl = tbl"
    by (simp add: other)
  have first: "vote c 1 user_id ip1 tbl = Inr (?c1, tbl @ [?row])"
    using vote_first [OF assms(3), of 1 user_id ip1] by simp
  have look: "filter (\<lambda>r. cv_comment_id r = comment_id ?c1
                  \<and> voter_matches (cv_user_id r) (cv_ip_address r) user_id ip2) (tbl @ [?row])
              = [?row]"
    using lookup_after_first [OF assms(3) assms(4)] by simp
  have s1: "vote ?c1 1 user_id ip2 (tbl @ [?row]) = Inr (?c1, tbl @ [?row])"
    unfolding vote_def look by (simp add: Let_def upd)
  have s2: "vote ?c1 (- 1) user_id ip2 (tbl @ [?row])
              = Inr (?c1\<lparr>likes_count := likes_count ?c1 - 1,
                          dislikes_count := dislikes_count ?c1 + 1\<rparr>,
                     tbl @ [?row\<lparr>cv_vote := - 1\<rparr>])"
    unfolding vote_def look by (simp add: Let_def upd)
  have s3: "vote ?c1 0 user_id ip2 (tbl @ [?row])
              = Inr (?c1\<lparr>likes_count := likes_count ?c1 - 1\<rparr>, tbl)"
    unfolding vote_def look by (simp add: Let_def del)
  have c1: "?c1 = c\<lparr>likes_count := 1\<rparr>" using assms(1) by simp
  have c2: "?c1\<lparr>likes_count := likes_count ?c1 - 1, dislikes_count := dislikes_count ?c1 + 1\<rparr>
              = c\<lparr>likes_count := 0, dislikes_count := 1\<rparr>"
    using assms(1,2) by simp
  have c3: "?c1\<lparr>likes_count := likes_count ?c1 - 1\<rparr> = c"
    using assms(1) by (cases c) simp
  have "vote_all c tbl [(1, user_id, ip1), (1, user_id, ip2)] = vote ?c1 1 user_id ip2 (tbl @ [?row])"
    by (simp add: first split: sum.splits)
  also have "\<dots> = Inr (?c1, tbl @ [?row])" by (rule s1)
  also have "\<dots> = Inr (c\<lparr>likes_count := 1\<rparr>, tbl @ [?row])" by (simp only: c1)
  finally have a: "vote_all c tbl [(1, user_id, ip1), (1, user_id, ip2)]
                  = Inr (c\<lparr>likes_count := 1\<rparr>, tbl @ [?row])" .
  have "vote_all c tbl [(1, user_id, ip1), (- 1, user_id, ip2)]
          = vote ?c1 (- 1) user_id ip2 (tbl @ [?row])"
    by (simp add: first split: sum.splits)
  also have "\<dots> = Inr (?c1\<lparr>likes_count := likes_count ?c1 - 1,
                          dislikes_count := dislikes_count ?c1 + 1\<rparr>,
                     tbl @ [?row\<lparr>cv_vote := - 1\<rparr>])"
    by (rule s2)
  also have "\<dots> = Inr (c\<lparr>likes_count := 0, dislikes_count := 1\<rparr>, tbl @ [?row\<lparr>cv_vote := - 1\<rparr>])"
    by (simp only: c2)
  finally have b: "vote_all c tbl [(1, user_id, ip1), (- 1, user_id, ip2)]
                  = Inr (c\<lparr>likes_count := 0, dislikes_count := 1\<rparr>, tbl @ [?row\<lparr>cv_vote := - 1\<rparr>])" .
  have "vote_all c tbl [(1, user_id, ip1), (0, user_id, ip2)] = vote ?c1 0 user_id ip2 (tbl @ [?row])"
    by (simp add: first split: sum.splits)
  also have "\<dots> = Inr (?c1\<lparr>likes_count := likes_count ?c1 - 1\<rparr>, tbl)" by (rule s3)
  also have "\<dots> = Inr (c, tbl)" by (simp only: c3)
  finally have d: "vote_all c tbl [(1, user_id, ip1), (0, user_id, ip2)] = Inr (c, tbl)" .
  have f: "vote c 1 user_id ip1 tbl = Inr (c\<lparr>likes_count := 1\<rparr>, tbl @ [?row])"
    using first by (simp only: c1)
  have ca: "counts_after (vote_all c tbl [(1, user_id, ip1), (1, user_id, ip2)]) = Inr (1, 0)"
    unfolding a using assms(2) by (simp add: counts_after_def)
  have cb: "counts_after (vote_all c tbl [(1, user_id, ip1), (- 1, user_id, ip2)]) = Inr (0, 1)"
    unfolding b by (simp add: counts_after_def)
  have cd: "counts_after (vote_all c tbl [(1, user_id, ip1), (0, user_id, ip2)]) = Inr (0, 0)"
    unfolding d using assms(1,2) by (simp add: counts_after_def)
  from b have b': "vote_all c tbl [(1, user_id, ip1), (- 1, user_id, ip2)]
           = Inr (c\<lparr>likes_count := 0, dislikes_count := 1\<rparr>,
                  tbl @ [\<lparr>cv_id = ?n, cv_comment_id = comment_id c,
                           cv_user_id = user_id, cv_ip_address = ip1, cv_vote = - 1\<rparr>])"
    by simp
  from a b' d f ca cb cd show ?thesis by (intro conjI)
qed

text \<open>
  User 7 votes on comment 4 from two addresses, while the table holds a vote of the same
  user on comment 9, which stays as it is.
\<close>

theorem vote_sequences_witness:
  "vote_all
      \<lparr>comment_id = 4, content = ''nice post'', comment_post_id = 2, comment_parent_id = None,
        comment_author_id = Some 3, is_approved = True, is_pinned = False,
        likes_count = 0, dislikes_count = 0, created_at = 100\<rparr>
      [\<lparr>cv_id = 1, cv_comment_id = 9, cv_user_id = Some 7, cv_ip_address = ''10.0.0.1'', cv_vote = 1\<rparr>]
      [(1, Some 7, ''10.0.0.1''), (1, Some 7, ''10.0.0.2'')]
     = Inr (\<lparr>comment_id = 4, content = ''nice post'', comment_post_id = 2, comment_parent_id = None,
        comment_author_id = Some 3, is_approved = True, is_pinned = False,
        likes_count = 1, dislikes_count = 0, created_at = 100\<rparr>,
            [\<lparr>cv_id = 1, cv_comment_id = 9, cv_user_id = Some 7, cv_ip_address = ''10.0.0.1'', cv_vote = 1\<rparr>,
             \<lparr>cv_id = 2, cv_comment_id = 4, cv_user_id = Some 7, cv_ip_address = ''10.0.0.1'', cv_vote = 1\<rparr>])
   \<and> vote_all
      \<lparr>comment_id = 4, content = ''nice post'', comment_post_id = 2, comment_parent_id = None,
        comment_author_id = Some 3, is_approved = True, is_pinned = False,
        likes_count = 0, dislikes_count = 0, created_at = 100\<rparr>
      [\<lparr>cv_id = 1, cv_comment_id = 9, cv_user_id = Some 7, cv_ip_address = ''10.0.0.1'', cv_vote = 1\<rparr>]
      [(1, Some 7, ''10.0.0.1''), (- 1, Some 7, ''10.0.0.2'')]
     = Inr (\<lparr>comment_id = 4, content = ''nice post'', comment_post_id = 2, comment_parent_id = None,
        comment_author_id = Some 3, is_approved = True, is_pinned = False,
        likes_count = 0, dislikes_count = 1, created_at = 100\<rparr>,
            [\<lparr>cv_id = 1, cv_comment_id = 9, cv_user_id = Some 7, cv_ip_address = ''10.0.0.1'', cv_vote = 1\<rparr>,
             \<lparr>cv_id = 2, cv_comment_id = 4, cv_user_id = Some 7, cv_ip_address = ''10.0.0.1'', cv_vote = - 1\<rparr>])
   \<and> vote_all
      \<lparr>comment_id = 4, content = ''nice post'', comment_post_id = 2, comment_parent_id = None,
        comment_author_id = Some 3, is_approved = True, is_pinned = False,
        likes_count = 0, dislikes_count = 0, created_at = 100\<rparr>
      [\<lparr>cv_id = 1, cv_comment_id = 9, cv_user_id = Some 7, cv_ip_address = ''10.0.0.1'', cv_vote = 1\<rparr>]
      [(1, Some 7, ''10.0.0.1''), (0, Some 7, ''10.0.0.2'')]
     = Inr (\<lparr>comment_id = 4, content = ''nice post'', comment_post_id = 2, comment_parent_id = None,
        comment_author_id = Some 3, is_approved = True, is_pinned = False,
        likes_count = 0, dislikes_count = 0, created_at = 100\<rparr>,
            [\<lparr>cv_id = 1, cv_comment_id = 9, cv_user_id = Some 7, cv_ip_address = ''10.0.0.1'', cv_vote = 1\<rparr>])"
  using vote_sequences [of
      "\<lparr>comment_id = 4, content = ''nice post'', comment_post_id = 2, comment_parent_id = None,
        comment_author_id = Some 3, is_approved = True, is_pinned = False,
        likes_count = 0, dislikes_count = 0, created_at = 100\<rparr>"
      "[\<lparr>cv_id = 1, cv_comment_id = 9, cv_user_id = Some 7, cv_ip_address = ''10.0.0.1'', cv_vote = 1\<rparr>]"
      "''10.0.0.2''" "''10.0.0.1''" "Some 7"]
  by (simp del: vote_all.simps add: next_id_def numeral_2_eq_2)

section \<open>Proofs: post ratings\<close>

lemma rating_lookup_empty:
  assumes "ip \<notin> rated_by_ip k tbl"
    and "\<And>u. user_id = Some u \<Longrightarrow> u \<noteq> 0 \<Longrightarrow> u \<notin> rated_by_user k tbl"
  shows "filter (\<lambda>x. pr_post_id x = k
            \<and> voter_matches (pr_user_id x) (pr_ip_address x) user_id ip) tbl = []"
proof -
  have "\<not> (pr_post_id x = k \<and> voter_matches (pr_user_id x) (pr_ip_address x) user_id ip)"
    if "x \<in> set tbl" for x
  proof
    assume h: "pr_post_id x = k \<and> voter_matches (pr_user_id x) (pr_ip_address x) user_id ip"
    then consider (user) u where "user_id = Some u" "u \<noteq> 0" "pr_user_id x = Some u"
      | (ip) "pr_ip_address x = ip"
      by (auto simp: voter_matches_def split: option.splits if_splits)
    then show False
    proof cases
      case user
      with h that have "u \<in> rated_by_user k tbl" by (auto simp: rated_by_user_def)
      with assms(2) user show False by blast
    next
      case ip
      with h that have "ip \<in> rated_by_ip k tbl" by (auto simp: rated_by_ip_def)
      with assms(1) show False by blast
    qed
  qed
  then show ?thesis by (simp add: filter_empty_conv)
qed

lemma rate_post_new:
  assumes "filter (\<lambda>x. pr_post_id x = post_id p
            \<and> voter_matches (pr_user_id x) (pr_ip_address x) user_id ip) tbl = []"
    and "0 \<le> votes_count p"
  shows "rate_post p r user_id ip tbl =
           Inr (p\<lparr>votes_count := votes_count p + 1,
                   rating := (rating p * of_int (votes_count p) + of_int r)
                               / of_int (votes_count p + 1)\<rparr>,
                tbl @ [\<lparr>pr_id = next_id (map pr_id tbl), pr_post_id = post_id p,
                         pr_user_id = user_id, pr_ip_address = ip, pr_rating = r\<rparr>])"
proof -
  have "votes_count p + 1 \<noteq> 0" using assms(2) by linarith
  then show ?thesis
    unfolding rate_post_def assms(1) by (simp add: Let_def)
qed

lemma rated_by_ip_snoc:
  "rated_by_ip k (tbl @ [x]) = (if pr_post_id x = k then insert (pr_ip_address x) (rated_by_ip k tbl)
                                 else rated_by_ip k tbl)"
  by (auto simp: rated_by_ip_def)

lemma rated_by_user_snoc:
  "rated_by_user k (tbl @ [x]) =
     (if pr_post_id x = k then (case pr_user_id x of None \<Rightarrow> rated_by_user k tbl
                                | Some u \<Rightarrow> insert u (rated_by_user k tbl))
      else rated_by_user k tbl)"
  by (auto simp: rated_by_user_def split: option.splits)

lemma rate_all_distinct:
  assumes "distinct (request_ips reqs)" and "distinct (request_user_ids reqs)"
    and "set (request_ips reqs) \<inter> rated_by_ip (post_id p) tbl = {}"
    and "set (request_user_ids reqs) \<inter> rated_by_user (post_id p) tbl = {}"
    and "0 \<le> votes_count p"
  shows "\<exists>p' tbl'. rate_all p tbl reqs = Inr (p', tbl')
           \<and> votes_count p' = votes_count p + int (length reqs)
           \<and> rating p' * of_int (votes_count p')
               = rating p * of_int (votes_count p) + of_int (sum_list (map fst reqs))"
  using assms
proof (induction reqs arbitrary: p tbl)
  case Nil
  then show ?case by simp
next
  case (Cons req reqs)
  obtain r user_id ip where req: "req = (r, user_id, ip)" by (cases req)
  let ?row = "\<lparr>pr_id = next_id (map pr_id tbl), pr_post_id = post_id p,
                pr_user_id = user_id, pr_ip_address = ip, pr_rating = r\<rparr>"
  let ?p1 = "p\<lparr>votes_count := votes_count p + 1,
                rating := (rating p * of_int (votes_count p) + of_int r)
                            / of_int (votes_count p + 1)\<rparr>"
  have ip_new: "ip \<notin> rated_by_ip (post_id p) tbl"
    using Cons.prems(3) by (auto simp: req request_ips_def)
  have user_new: "u \<notin> rated_by_user (post_id p) tbl" if "user_id = Some u" "u \<noteq> 0" for u
    using Cons.prems(4) that by (auto simp: req request_user_ids_def)
  have step: "rate_post p r user_id ip tbl = Inr (?p1, tbl @ [?row])"
    by (rule rate_post_new [OF rating_lookup_empty [OF ip_new user_new] Cons.prems(5)])
  have d1: "distinct (request_ips reqs)"
    using Cons.prems(1) by (simp add: req request_ips_def)
  have d2: "distinct (request_user_ids reqs)"
    using Cons.prems(2) by (simp add: req request_user_ids_def)
  have i1: "set (request_ips reqs) \<inter> rated_by_ip (post_id ?p1) (tbl @ [?row]) = {}"
    using Cons.prems(1,3) by (auto simp: req request_ips_def rated_by_ip_snoc)
  have i2: "set (request_user_ids reqs) \<inter> rated_by_user (post_id ?p1) (tbl @ [?row]) = {}"
  proof (cases "\<exists>u. user_id = Some u \<and> u \<noteq> 0")
    case True
    then obtain u where u: "user_id = Some u" "u \<noteq> 0" by blast
    have "request_user_ids (req # reqs) = u # request_user_ids reqs"
      by (simp add: req request_user_ids_def u)
    with Cons.prems(2,4) have "u \<notin> set (request_user_ids reqs)"
      and "set (request_user_ids reqs) \<inter> rated_by_user (post_id p) tbl = {}"
      by auto
    then show ?thesis by (simp add: rated_by_user_snoc u)
  next
    case False
    then have eq: "request_user_ids (req # reqs) = request_user_ids reqs"
      by (auto simp: req request_user_ids_def split: option.splits)
    have "rated_by_user (post_id p) (tbl @ [?row]) \<subseteq> insert 0 (rated_by_user (post_id p) tbl)"
      using False by (auto simp: rated_by_user_snoc split: option.splits)
    moreover have "0 \<notin> set (request_user_ids reqs)"
      by (auto simp: request_user_ids_def split: option.splits if_splits)
    ultimately show ?thesis using Cons.prems(4) unfolding eq by auto
  qed
  have nn: "0 \<le> votes_count ?p1" using Cons.prems(5) by simp
  from Cons.IH [OF d1 d2 i1 i2 nn]
  obtain p' tbl' where run: "rate_all ?p1 (tbl @ [?row]) reqs = Inr (p', tbl')"
    and cnt: "votes_count p' = votes_count ?p1 + int (length reqs)"
    and avg: "rating p' * of_int (votes_count p')
                = rating ?p1 * of_int (votes_count ?p1) + of_int (sum_list (map fst reqs))"
    by blast
  have nz: "(of_int (votes_count p + 1) :: rat) \<noteq> 0"
    using Cons.prems(5) by (simp add: of_int_eq_0_iff) 
  have "rating ?p1 * of_int (votes_count ?p1) = rating p * of_int (votes_count p) + of_int r"
  proof -
    have "rating ?p1 = (rating p * of_int (votes_count p) + of_int r) / of_int (votes_count p + 1)"
      by simp
    moreover have "votes_count ?p1 = votes_count p + 1" by simp
    moreover have "(x / c) * c = x" if "c \<noteq> 0" for x c :: rat
      using that by simp
    ultimately show ?thesis using nz by (simp only:)
  qed
  with avg have avg': "rating p' * of_int (votes_count p')
      = rating p * of_int (votes_count p) + of_int (sum_list (map fst (req # reqs)))"
    by (simp add: req)
  have "rate_all p tbl (req # reqs) = Inr (p', tbl')"
    using run by (simp add: req step)
  moreover have "votes_count p' = votes_count p + int (length (req # reqs))"
    using cnt by simp
  ultimately show ?case using avg' by blast
qed


text \<open>
  Claim C1 (amended).  Starting from \<open>rating = 0\<close>, \<open>votes_count = 0\<close> and no rating row
  of the post, a non-empty sequence of \<open>rate_post\<close> requests in which no two requests
  come from the same IP address and no two requests carry the same non-zero user id
  never raises, and leaves \<open>votes_count\<close> equal to the number \<open>N\<close> of requests and
  \<open>rating\<close> equal to the arithmetic mean of the \<open>N\<close> ratings (in exact arithmetic).
\<close>

theorem rate_post_mean_distinct:
  assumes "rating p = 0" and "votes_count p = 0"
    and "\<forall>x \<in> set tbl. pr_post_id x \<noteq> post_id p"
    and "distinct (request_ips reqs)" and "distinct (request_user_ids reqs)"
    and "reqs \<noteq> []"
  shows "rating_after (rate_all p tbl reqs)
           = Inr (of_int (sum_list (map fst reqs)) / of_int (int (length reqs)), int (length reqs))"
proof -
  have e1: "set (request_ips reqs) \<inter> rated_by_ip (post_id p) tbl = {}"
    using assms(3) by (auto simp: rated_by_ip_def)
  have e2: "set (request_user_ids reqs) \<inter> rated_by_user (post_id p) tbl = {}"
    using assms(3) by (auto simp: rated_by_user_def)
  have "0 \<le> votes_count p" using assms(2) by simp
  from rate_all_distinct [OF assms(4) assms(5) e1 e2 this]
  obtain p' tbl' where run: "rate_all p tbl reqs = Inr (p', tbl')"
    and cnt: "votes_count p' = votes_count p + int (length reqs)"
    and avg: "rating p' * of_int (votes_count p')
                = rating p * of_int (votes_count p) + of_int (sum_list (map fst reqs))"
    by blast
  have cnt': "votes_count p' = int (length reqs)" using cnt assms(2) by simp
  have nz: "(of_int (int (length reqs)) :: rat) \<noteq> 0" using assms(6) by simp
  have "rating p' * of_int (int (length reqs)) = of_int (sum_list (map fst reqs))"
    using avg assms(1) by (simp add: cnt')
  moreover have "a = b / c" if "a * c = b" "c \<noteq> 0" for a b c :: rat
    using that by (simp add: nonzero_eq_divide_eq)
  ultimately have "rating p' = of_int (sum_list (map fst reqs)) / of_int (int (length reqs))"
    using nz by blast
  then show ?thesis by (simp add: rating_after_def run cnt')
qed

text \<open>Three voters, ratings 5, 2 and 2: the mean is 3 and three votes are counted.\<close>

theorem rate_post_mean_distinct_witness:
  "rating_after (rate_all \<lparr>post_id = 1, post_title = ''hello-world'', post_slug = ''hello-world'', rating = 0, votes_count = 0\<rparr> []
      [(5, Some 1, ''10.0.0.1''), (2, None, ''10.0.0.2''), (2, Some 3, ''10.0.0.3'')])
     = Inr (3, 3)"
  using rate_post_mean_distinct [of
      "\<lparr>post_id = 1, post_title = ''hello-world'', post_slug = ''hello-world'', rating = 0, votes_count = 0\<rparr>" "[]"
      "[(5, Some 1, ''10.0.0.1''), (2, None, ''10.0.0.2''), (2, Some 3, ''10.0.0.3'')]"]
  by (simp add: request_ips_def request_user_ids_def)

text \<open>
  Claim C1 as stated fails where two different authenticated users share an IP address:
  the voter filter is \<open>user_id\<close> match \<^emph>\<open>or\<close> IP match, so the second user's request
  finds the first user's row and overwrites it.  Users 1 and 2 rate 5 and 1 from
  \<open>10.0.0.1\<close>: the post ends with \<open>rating = 1\<close> and \<open>votes_count = 1\<close>, not with the mean 3
  of two votes.
\<close>

theorem rate_post_shared_ip_counterexample:
  "rating_after (rate_all \<lparr>post_id = 1, post_title = ''hello-world'', post_slug = ''hello-world'', rating = 0, votes_count = 0\<rparr> []
      [(5, Some 1, ''10.0.0.1''), (1, Some 2, ''10.0.0.1'')])
     = Inr (1, 1)
   \<and> rating_after (rate_all \<lparr>post_id = 1, post_title = ''hello-world'', post_slug = ''hello-world'', rating = 0, votes_count = 0\<rparr> []
      [(5, Some 1, ''10.0.0.1''), (1, Some 2, ''10.0.0.1'')])
     \<noteq> Inr ((5 + 1) / 2, 2)"
  by (simp add: rating_after_def rate_post_def voter_matches_def next_id_def)

lemma rating_filter_update:
  "filter (\<lambda>x. pr_post_id x = k \<and> voter_matches (pr_user_id x) (pr_ip_address x) user_id ip)
     (map (\<lambda>x. if pr_id x = n then x\<lparr>pr_rating := r\<rparr> else x) tbl)
   = map (\<lambda>x. if pr_id x = n then x\<lparr>pr_rating := r\<rparr> else x)
       (filter (\<lambda>x. pr_post_id x = k \<and> voter_matches (pr_user_id x) (pr_ip_address x) user_id ip) tbl)"
  by (induction tbl) auto

text \<open>
  The branch \<open>if existing_rating\<close>.  When the voter lookup finds exactly one rating row
  \<open>existing\<close> and \<open>votes_count\<close> is not 0, the call returns; the new average is
  \<open>(rating * votes_count - old_rating + r) / votes_count\<close>; \<open>votes_count\<close> is unchanged; the
  table is the old one with \<open>r\<close> written to the row found; and the same request made a
  second time changes neither the post nor the table.
\<close>

lemma rate_post_existing:
  assumes "filter (\<lambda>x. pr_post_id x = post_id p
              \<and> voter_matches (pr_user_id x) (pr_ip_address x) user_id ip) tbl = [existing]"
    and "votes_count p \<noteq> 0"
  shows "\<exists>p' tbl'. rate_post p r user_id ip tbl = Inr (p', tbl')
           \<and> rating p' = (rating p * of_int (votes_count p) - of_int (pr_rating existing) + of_int r)
                            / of_int (votes_count p)
           \<and> votes_count p' = votes_count p
           \<and> filter (\<lambda>x. pr_post_id x = post_id p
                \<and> voter_matches (pr_user_id x) (pr_ip_address x) user_id ip) tbl'
               = [existing\<lparr>pr_rating := r\<rparr>]
           \<and> length tbl' = length tbl
           \<and> tbl' = map (\<lambda>x. if pr_id x = pr_id existing then x\<lparr>pr_rating := r\<rparr> else x) tbl
           \<and> rate_post p' r user_id ip tbl' = Inr (p', tbl')"
proof -
  let ?f = "\<lambda>x. if pr_id x = pr_id existing then x\<lparr>pr_rating := r\<rparr> else x"
  let ?p' = "p\<lparr>rating := (rating p * of_int (votes_count p) - of_int (pr_rating existing) + of_int r)
                             / of_int (votes_count p)\<rparr>"
  have first: "rate_post p r user_id ip tbl = Inr (?p', map ?f tbl)"
    unfolding rate_post_def assms(1) using assms(2) by (simp add: Let_def)
  have look: "filter (\<lambda>x. pr_post_id x = post_id p
                \<and> voter_matches (pr_user_id x) (pr_ip_address x) user_id ip) (map ?f tbl)
              = [existing\<lparr>pr_rating := r\<rparr>]"
    by (simp only: rating_filter_update assms(1)) simp
  have look': "filter (\<lambda>x. pr_post_id x = post_id ?p'
                \<and> voter_matches (pr_user_id x) (pr_ip_address x) user_id ip) (map ?f tbl)
              = [existing\<lparr>pr_rating := r\<rparr>]"
    using look by simp
  have idem: "map (\<lambda>x. if pr_id x = pr_id (existing\<lparr>pr_rating := r\<rparr>)
                         then x\<lparr>pr_rating := r\<rparr> else x) (map ?f tbl) = map ?f tbl"
    by (induction tbl) auto
  have nz: "(of_int (votes_count p) :: rat) \<noteq> 0" using assms(2) by simp
  have same: "(rating ?p' * of_int (votes_count ?p') - of_int (pr_rating (existing\<lparr>pr_rating := r\<rparr>))
                 + of_int r) / of_int (votes_count ?p') = rating ?p'"
  proof -
    have "(a * c - b + b) / c = a" if "c \<noteq> 0" for a b c :: rat
      using that by simp
    from this [OF nz] show ?thesis by simp
  qed
  have second: "rate_post ?p' r user_id ip (map ?f tbl) = Inr (?p', map ?f tbl)"
    unfolding rate_post_def look' using assms(2)
    by (simp only: Let_def idem same) simp
  show ?thesis
    using first look second by (intro exI [of _ ?p'] exI [of _ "map ?f tbl"]) simp
qed

text \<open>User 7 changes a rating of 5 to 3 on a post with two votes and average 4.\<close>

lemma rate_post_existing_example:
  "rate_post \<lparr>post_id = 1, post_title = ''hello-world'', post_slug = ''hello-world'', rating = 4, votes_count = 2\<rparr>
        3 (Some 7) ''10.0.0.9''
        [\<lparr>pr_id = 1, pr_post_id = 1, pr_user_id = Some 7, pr_ip_address = ''10.0.0.1'', pr_rating = 5\<rparr>,
         \<lparr>pr_id = 2, pr_post_id = 1, pr_user_id = None, pr_ip_address = ''10.0.0.2'', pr_rating = 3\<rparr>]
     = Inr (\<lparr>post_id = 1, post_title = ''hello-world'', post_slug = ''hello-world'', rating = 3, votes_count = 2\<rparr>,
            [\<lparr>pr_id = 1, pr_post_id = 1, pr_user_id = Some 7, pr_ip_address = ''10.0.0.1'', pr_rating = 3\<rparr>,
             \<lparr>pr_id = 2, pr_post_id = 1, pr_user_id = None, pr_ip_address = ''10.0.0.2'', pr_rating = 3\<rparr>])"
  by (simp add: rate_post_def voter_matches_def)

text \<open>
  Claim C2 fails on the code where the request matches two rows.  Users 1 and 2 rate 5
  and 1 from two addresses: the post has two rows, \<open>votes_count = 2\<close> and \<open>rating = 3\<close>.
  User 1 then rates 4 from the address of user 2.  A row of user 1 exists, with the old
  value 5; the lookup, by user id or by IP address, also matches the row of user 2;
  \<open>scalar_one_or_none\<close> raises \<open>MultipleResultsFound\<close> and nothing is updated.
\<close>

theorem rate_post_two_rows_raise:
  "rate_all \<lparr>post_id = 1, post_title = ''hello-world'', post_slug = ''hello-world'', rating = 0, votes_count = 0\<rparr> []
      [(5, Some 1, ''10.0.0.1''), (1, Some 2, ''10.0.0.2'')]
     = Inr (\<lparr>post_id = 1, post_title = ''hello-world'', post_slug = ''hello-world'', rating = 3, votes_count = 2\<rparr>,
            [\<lparr>pr_id = 1, pr_post_id = 1, pr_user_id = Some 1, pr_ip_address = ''10.0.0.1'', pr_rating = 5\<rparr>,
             \<lparr>pr_id = 2, pr_post_id = 1, pr_user_id = Some 2, pr_ip_address = ''10.0.0.2'', pr_rating = 1\<rparr>])
   \<and> rate_post \<lparr>post_id = 1, post_title = ''hello-world'', post_slug = ''hello-world'', rating = 3, votes_count = 2\<rparr>
        4 (Some 1) ''10.0.0.2''
        [\<lparr>pr_id = 1, pr_post_id = 1, pr_user_id = Some 1, pr_ip_address = ''10.0.0.1'', pr_rating = 5\<rparr>,
         \<lparr>pr_id = 2, pr_post_id = 1, pr_user_id = Some 2, pr_ip_address = ''10.0.0.2'', pr_rating = 1\<rparr>]
     = Inl MultipleResultsFound"
  by (simp add: rate_post_def voter_matches_def next_id_def numeral_2_eq_2)

text \<open>
  \<open>rate_post\<close> keeps \<open>votes_count\<close> equal to the number of rating rows of the post, so
  a row found by the lookup implies \<open>votes_count \<noteq> 0\<close>.
\<close>

lemma rate_post_counts_rows:
  assumes "votes_count p = int (length (filter (\<lambda>x. pr_post_id x = post_id p) tbl))"
    and "rate_post p r user_id ip tbl = Inr (p', tbl')"
  shows "votes_count p' = int (length (filter (\<lambda>x. pr_post_id x = post_id p') tbl'))"
proof -
  have len: "filter ((\<lambda>x. pr_post_id x = k) \<circ> (\<lambda>x. if pr_id x = n then x\<lparr>pr_rating := r\<rparr> else x)) tbl
        = filter (\<lambda>x. pr_post_id x = k) tbl" for k n
    by (rule filter_cong) auto
  show ?thesis
    using assms
    by (auto simp: rate_post_def Let_def len
             split: sum.splits option.splits if_splits)
qed

section \<open>Proofs: slug assignment\<close>

lemma digit_val_digit_char: "d < 10 \<Longrightarrow> digit_val (digit_char d) = d"
  by (auto simp: digit_val_def digit_char_def less_Suc_eq numeral_nat)

lemma nat_of_str_str: "nat_of_str (str n) = n"
proof (induction n rule: str.induct)
  case (1 n)
  show ?case
  proof (cases "n < 10")
    case True
    then show ?thesis by (simp add: nat_of_str_def digit_val_digit_char)
  next
    case False
    have "nat_of_str (str n) = 10 * nat_of_str (str (n div 10)) + digit_val (digit_char (n mod 10))"
      using False by (subst str.simps) (simp add: nat_of_str_def)
    also have "\<dots> = 10 * (n div 10) + n mod 10"
      using "1.IH" [OF False] by (simp add: digit_val_digit_char)
    finally show ?thesis by simp
  qed
qed

lemma str_inj: "str m = str n \<Longrightarrow> m = n"
  by (metis nat_of_str_str)

lemma suffixed_inj: "suffixed b m = suffixed b n \<Longrightarrow> m = n"
  by (simp add: suffixed_def str_inj)

lemma finite_suffix_taken: "finite {k. suffixed b k \<in> set slugs}"
proof -
  have "inj (suffixed b)" by (rule injI) (rule suffixed_inj)
  then have "finite (suffixed b -` set slugs)" by (intro finite_vimageI) simp_all
  then show ?thesis by (simp add: vimage_def)
qed

lemma finite_taken_from: "finite (taken_from slugs b c)"
  by (rule finite_subset [OF _ finite_suffix_taken [of b slugs]]) (auto simp: taken_from_def)

lemma taken_from_Suc:
  "taken_from slugs b c =
     (if suffixed b c \<in> set slugs then insert c (taken_from slugs b (Suc c))
      else taken_from slugs b (Suc c))"
proof -
  have "c \<le> k \<longleftrightarrow> k = c \<or> Suc c \<le> k" for k by auto
  then show ?thesis by (auto simp: taken_from_def)
qed

lemma card_taken_from_Suc:
  "card (taken_from slugs b (Suc c)) + (if suffixed b c \<in> set slugs then 1 else 0)
     = card (taken_from slugs b c)"
proof -
  have "c \<notin> taken_from slugs b (Suc c)" by (simp add: taken_from_def)
  then show ?thesis
    by (subst (2) taken_from_Suc) (simp add: finite_taken_from)
qed

lemma lookup_Some_taken:
  "scalar_one_or_none (filter (\<lambda>x. slug_of x = slug) tbl) = Inr (Some existing)
     \<Longrightarrow> slug \<in> set (map slug_of tbl)"
proof -
  assume "scalar_one_or_none (filter (\<lambda>x. slug_of x = slug) tbl) = Inr (Some existing)"
  then have "filter (\<lambda>x. slug_of x = slug) tbl \<noteq> []" by auto
  then obtain x where "x \<in> set tbl" "slug_of x = slug"
    by (auto simp: filter_empty_conv)
  then show ?thesis by auto
qed

text \<open>
  The loop ends: the table is finite and the candidates \<open>base-c\<close>, \<open>base-(c+1)\<close>, ... are
  pairwise different, so only finitely many of them are taken.
\<close>

termination unique_slug
proof (relation "measure (\<lambda>(slug_of, tbl, base_slug, slug, counter).
          card (taken_from (map slug_of tbl) base_slug counter)
          + (if slug \<in> set (map slug_of tbl) then 1 else 0))", goal_cases)
  case 1
  show ?case by simp
next
  case (2 slug_of tbl base_slug slug counter x2 existing)
  have "slug \<in> set (map slug_of tbl)"
    using 2 by (auto dest: lookup_Some_taken)
  then show ?case
    using card_taken_from_Suc [of "map slug_of tbl" base_slug counter] by simp
qed

lemma lookup_distinct:
  assumes "distinct (map slug_of tbl)"
  shows "(slug \<notin> set (map slug_of tbl)
            \<longrightarrow> scalar_one_or_none (filter (\<lambda>x. slug_of x = slug) tbl) = Inr None)
       \<and> (slug \<in> set (map slug_of tbl)
            \<longrightarrow> (\<exists>x. scalar_one_or_none (filter (\<lambda>x. slug_of x = slug) tbl) = Inr (Some x)))"
  using assms
proof (induction tbl)
  case Nil
  then show ?case by simp
next
  case (Cons a tbl)
  then have d: "distinct (map slug_of tbl)" and a: "slug_of a \<notin> set (map slug_of tbl)"
    by simp_all
  show ?case
  proof (cases "slug_of a = slug")
    case True
    have "slug_of x \<noteq> slug" if "x \<in> set tbl" for x
    proof
      assume "slug_of x = slug"
      with True that have "slug_of a \<in> slug_of ` set tbl" by (metis imageI)
      with a show False by simp
    qed
    then have "filter (\<lambda>x. slug_of x = slug) tbl = []"
      by (simp add: filter_empty_conv)
    with True show ?thesis by simp
  next
    case False
    with Cons.IH [OF d] show ?thesis by simp
  qed
qed

lemma unique_slug_spec:
  assumes "distinct (map slug_of tbl)"
  shows "\<exists>r. unique_slug slug_of tbl b slug c = Inr r
           \<and> r \<notin> set (map slug_of tbl)
           \<and> (slug \<notin> set (map slug_of tbl) \<longrightarrow> r = slug)
           \<and> (slug \<in> set (map slug_of tbl) \<longrightarrow>
                (\<exists>N\<ge>c. r = suffixed b N
                   \<and> (\<forall>k. c \<le> k \<and> k < N \<longrightarrow> suffixed b k \<in> set (map slug_of tbl))))"
  using assms
proof (induction slug_of tbl b slug c rule: unique_slug.induct)
  case (1 slug_of tbl b slug c)
  let ?S = "set (map slug_of tbl)"
  show ?case
  proof (cases "slug \<in> ?S")
    case False
    then have "scalar_one_or_none (filter (\<lambda>x. slug_of x = slug) tbl) = Inr None"
      using lookup_distinct [OF "1.prems", of slug] by simp
    then have "unique_slug slug_of tbl b slug c = Inr slug"
      by (subst unique_slug.simps) simp
    with False show ?thesis by simp
  next
    case True
    then obtain x where x: "scalar_one_or_none (filter (\<lambda>x. slug_of x = slug) tbl) = Inr (Some x)"
      using lookup_distinct [OF "1.prems", of slug] by blast
    then have unf: "unique_slug slug_of tbl b slug c
                      = unique_slug slug_of tbl b (suffixed b c) (c + 1)"
      by (subst unique_slug.simps) simp
    from "1.IH" [OF x refl "1.prems"]
    obtain r where r: "unique_slug slug_of tbl b (suffixed b c) (c + 1) = Inr r"
      and fresh: "r \<notin> ?S"
      and free: "suffixed b c \<notin> ?S \<longrightarrow> r = suffixed b c"
      and taken: "suffixed b c \<in> ?S \<longrightarrow>
                    (\<exists>N\<ge>c + 1. r = suffixed b N
                       \<and> (\<forall>k. c + 1 \<le> k \<and> k < N \<longrightarrow> suffixed b k \<in> ?S))"
      by blast
    have "\<exists>N\<ge>c. r = suffixed b N \<and> (\<forall>k. c \<le> k \<and> k < N \<longrightarrow> suffixed b k \<in> ?S)"
    proof (cases "suffixed b c \<in> ?S")
      case False
      with free have "r = suffixed b c" by simp
      then show ?thesis by (intro exI [of _ c]) auto
    next
      case True
      with taken obtain N where N: "c + 1 \<le> N" "r = suffixed b N"
        "\<forall>k. c + 1 \<le> k \<and> k < N \<longrightarrow> suffixed b k \<in> ?S"
        by blast
      have "suffixed b k \<in> ?S" if "c \<le> k" "k < N" for k
      proof (cases "k = c")
        case True
        with \<open>suffixed b c \<in> ?S\<close> show ?thesis by simp
      next
        case False
        with that have "c + 1 \<le> k" by simp
        with N(3) that show ?thesis by blast
      qed
      with N(1,2) show ?thesis by (intro exI [of _ N]) simp
    qed
    with True fresh r unf show ?thesis by simp
  qed
qed

lemma unique_slug_first:
  assumes "distinct (map slug_of tbl)"
  shows "\<exists>r. unique_slug slug_of tbl b b 1 = Inr r
           \<and> r \<notin> set (map slug_of tbl)
           \<and> (b \<notin> set (map slug_of tbl) \<longrightarrow> r = b)
           \<and> (b \<in> set (map slug_of tbl) \<longrightarrow>
                (\<exists>N\<ge>1. r = suffixed b N
                   \<and> suffixed b N \<notin> set (map slug_of tbl)
                   \<and> (\<forall>k. 1 \<le> k \<and> k < N \<longrightarrow> suffixed b k \<in> set (map slug_of tbl))))"
proof -
  from unique_slug_spec [OF assms, of b b 1]
  obtain r where r: "unique_slug slug_of tbl b b 1 = Inr r"
    and fresh: "r \<notin> set (map slug_of tbl)"
    and free: "b \<notin> set (map slug_of tbl) \<longrightarrow> r = b"
    and taken: "b \<in> set (map slug_of tbl) \<longrightarrow>
                  (\<exists>N\<ge>1. r = suffixed b N
                     \<and> (\<forall>k. 1 \<le> k \<and> k < N \<longrightarrow> suffixed b k \<in> set (map slug_of tbl)))"
    by blast
  from fresh taken have "b \<in> set (map slug_of tbl) \<longrightarrow>
                (\<exists>N\<ge>1. r = suffixed b N
                   \<and> suffixed b N \<notin> set (map slug_of tbl)
                   \<and> (\<forall>k. 1 \<le> k \<and> k < N \<longrightarrow> suffixed b k \<in> set (map slug_of tbl)))"
    by blast
  with r fresh free show ?thesis by blast
qed

text \<open>
  The equations of \<open>str\<close> and of the loop rewrite their own right-hand sides; from here
  on they are used only where named.
\<close>

declare str.simps [simp del] unique_slug.simps [simp del]












lemma set_categories_unloaded:
  "PostService_set_categories False p ids d = Inl MissingGreenlet"
  by (simp add: PostService_set_categories_def Let_def)

lemma set_tags_unloaded: "\<exists>e. PostService_set_tags slugify False p names d = Inl e"
  by (simp add: PostService_set_tags_def Let_def split: sum.splits prod.splits)

text \<open>
  \<open>PostService.create\<close> returns exactly for the requests without categories and tags;
  the post it returns carries the slug the loop found, and only the \<open>posts\<close> table has
  changed.
\<close>

lemma PostService_create_returns:
  assumes "PostService_create slugify data d = Inr (p, d')"
  shows "pc_category_ids data = [] \<and> pc_tags data = []
       \<and> unique_slug post_slug (posts d) (slugify (pc_title data)) (slugify (pc_title data)) 1
            = Inr (post_slug p)
       \<and> d' = d\<lparr>posts := posts d @ [p]\<rparr>"
proof -
  from assms obtain slug where
    slug: "unique_slug post_slug (posts d) (slugify (pc_title data)) (slugify (pc_title data)) 1
             = Inr slug"
    by (auto simp: PostService_create_def Let_def split: sum.splits)
  have c: "pc_category_ids data = []"
  proof (rule ccontr)
    assume "pc_category_ids data \<noteq> []"
    then have "\<exists>e. PostService_create slugify data d = Inl e"
      using slug by (simp add: PostService_create_def Let_def set_categories_unloaded)
    with assms show False by auto
  qed
  have t: "pc_tags data = []"
  proof (rule ccontr)
    assume nt: "pc_tags data \<noteq> []"
    let ?p = "\<lparr>post_id = next_id (map post_id (posts d)), post_title = pc_title data,
               post_slug = slug, rating = 0, votes_count = 0\<rparr>"
    obtain e where "PostService_set_tags slugify False ?p (pc_tags data)
                      (d\<lparr>posts := posts d @ [?p]\<rparr>) = Inl e"
      using set_tags_unloaded by blast
    then have "PostService_create slugify data d = Inl e"
      using nt c slug by (simp add: PostService_create_def Let_def)
    with assms show False by simp
  qed
  from assms c t slug show ?thesis
    by (auto simp: PostService_create_def Let_def)
qed








text \<open>The same creation evaluated.\<close>

lemma PostService_create_example:
  "PostService_create (\<lambda>t. t) \<lparr>pc_title = ''hello-world'', pc_category_ids = [], pc_tags = []\<rparr>
        \<lparr>posts = [\<lparr>post_id = 1, post_title = ''hello-world'', post_slug = ''hello-world'', rating = 0, votes_count = 0\<rparr>,
                  \<lparr>post_id = 2, post_title = ''hello-world'', post_slug = ''hello-world-1'', rating = 0, votes_count = 0\<rparr>],
         categories = [], post_categories = [], tags = [], post_tags = []\<rparr>
   = Inr (\<lparr>post_id = 3, post_title = ''hello-world'', post_slug = ''hello-world-2'', rating = 0, votes_count = 0\<rparr>,
          \<lparr>posts = [\<lparr>post_id = 1, post_title = ''hello-world'', post_slug = ''hello-world'', rating = 0, votes_count = 0\<rparr>,
                    \<lparr>post_id = 2, post_title = ''hello-world'', post_slug = ''hello-world-1'', rating = 0, votes_count = 0\<rparr>,
                    \<lparr>post_id = 3, post_title = ''hello-world'', post_slug = ''hello-world-2'', rating = 0, votes_count = 0\<rparr>],
           categories = [], post_categories = [], tags = [], post_tags = []\<rparr>)"
  by (simp add: PostService_create_def unique_slug.simps str.simps suffixed_def digit_char_def
        next_id_def Let_def numeral_3_eq_3)

section \<open>Proofs: comment life cycle and retrieval\<close>

lemma set_offset_limit: "set (offset_limit ofs lmt rows) \<subseteq> set rows"
  by (auto simp: offset_limit_def Let_def dest: in_set_takeD in_set_dropD)

lemma sorted_wrt_offset_limit:
  "sorted_wrt R rows \<Longrightarrow> sorted_wrt R (offset_limit ofs lmt rows)"
  by (simp add: offset_limit_def Let_def sorted_wrt_take sorted_wrt_drop)

lemma comment_order_key_le:
  "comment_order_key a \<le> comment_order_key b \<longleftrightarrow>
     (is_pinned a \<and> \<not> is_pinned b) \<or> (is_pinned a = is_pinned b \<and> created_at b \<le> created_at a)"
  by (auto simp: comment_order_key_def less_eq_prod_def)

text \<open>
  Claim C5.  For every post id, page and page size, \<open>get_by_post\<close> returns only
  top-level comments of the post that pass the approval filter; they are the page
  \<open>[(page - 1) * per_page, page * per_page)\<close> of all such comments (for \<open>page \<ge> 1\<close> and
  \<open>per_page \<ge> 0\<close>); each of them carries every row that replies to it, whatever the page;
  the items are ordered pinned first and then newest first; and \<open>total\<close> is the number of
  top-level comments of the post that pass the approval filter.
\<close>

theorem get_by_post_shallow_pagination:
  "(\<forall>(c, rs) \<in> set (fst (CommentService_get_by_post k page per_page approved_only tbl)).
       c \<in> set tbl \<and> comment_post_id c = k \<and> comment_parent_id c = None
       \<and> (approved_only \<longrightarrow> is_approved c)
       \<and> rs = filter (\<lambda>r. comment_parent_id r = Some (comment_id c)) tbl)
   \<and> (1 \<le> page \<and> 0 \<le> per_page \<longrightarrow>
         map fst (fst (CommentService_get_by_post k page per_page approved_only tbl))
           = take (nat per_page) (drop (nat ((page - 1) * per_page))
               (sort_key comment_order_key
                  (filter (\<lambda>c. comment_post_id c = k \<and> comment_parent_id c = None
                               \<and> (approved_only \<longrightarrow> is_approved c)) tbl))))
   \<and> sorted_wrt (\<lambda>a b. (is_pinned a \<and> \<not> is_pinned b)
                        \<or> (is_pinned a = is_pinned b \<and> created_at b \<le> created_at a))
         (map fst (fst (CommentService_get_by_post k page per_page approved_only tbl)))
   \<and> snd (CommentService_get_by_post k page per_page approved_only tbl)
       = length (filter (\<lambda>c. comment_post_id c = k \<and> comment_parent_id c = None
                              \<and> (approved_only \<longrightarrow> is_approved c)) tbl)"
proof (intro conjI)
  let ?m = "filter (\<lambda>c. comment_post_id c = k \<and> comment_parent_id c = None
                         \<and> (approved_only \<longrightarrow> is_approved c)) tbl"
  let ?page = "offset_limit ((page - 1) * per_page) per_page (sort_key comment_order_key ?m)"
  have res: "fst (CommentService_get_by_post k page per_page approved_only tbl)
               = map (\<lambda>c. (c, replies tbl c)) ?page"
    by (simp add: CommentService_get_by_post_def Let_def)
  have sub: "set ?page \<subseteq> set ?m"
    using set_offset_limit [of _ _ "sort_key comment_order_key ?m"] by simp
  show "\<forall>(c, rs) \<in> set (fst (CommentService_get_by_post k page per_page approved_only tbl)).
       c \<in> set tbl \<and> comment_post_id c = k \<and> comment_parent_id c = None
       \<and> (approved_only \<longrightarrow> is_approved c)
       \<and> rs = filter (\<lambda>r. comment_parent_id r = Some (comment_id c)) tbl"
    using sub unfolding res by (auto simp: replies_def)
  show "1 \<le> page \<and> 0 \<le> per_page \<longrightarrow>
         map fst (fst (CommentService_get_by_post k page per_page approved_only tbl))
           = take (nat per_page) (drop (nat ((page - 1) * per_page))
               (sort_key comment_order_key ?m))"
    unfolding res by (simp add: offset_limit_def Let_def comp_def)
  have "sorted (map comment_order_key (sort_key comment_order_key ?m))"
    by (rule sorted_sort_key)
  then have "sorted_wrt (\<lambda>a b. comment_order_key a \<le> comment_order_key b)
               (sort_key comment_order_key ?m)"
    by (simp add: sorted_map)
  then have "sorted_wrt (\<lambda>a b. comment_order_key a \<le> comment_order_key b) ?page"
    by (rule sorted_wrt_offset_limit)
  then show "sorted_wrt (\<lambda>a b. (is_pinned a \<and> \<not> is_pinned b)
                        \<or> (is_pinned a = is_pinned b \<and> created_at b \<le> created_at a))
         (map fst (fst (CommentService_get_by_post k page per_page approved_only tbl)))"
    unfolding res by (simp add: comp_def comment_order_key_le)
  show "snd (CommentService_get_by_post k page per_page approved_only tbl) = length ?m"
    by (simp add: CommentService_get_by_post_def Let_def)
qed

text \<open>
  The first page of three approved comments of the example thread: the pinned comment 2,
  then 5 and 1 by age; comment 1 carries its reply 4; the unapproved comment 3 is neither
  returned nor counted.
\<close>

theorem get_by_post_shallow_pagination_witness:
  "map (\<lambda>(c, rs). (comment_id c, map comment_id rs))
       (fst (CommentService_get_by_post 1 1 3 True example_thread)) = [(2, []), (5, []), (1, [4])]
   \<and> snd (CommentService_get_by_post 1 1 3 True example_thread) = 3"
  using get_by_post_shallow_pagination [of 1 1 3 True example_thread]
  by (simp add: CommentService_get_by_post_def example_thread_def comment_order_key_def
        offset_limit_def replies_def less_eq_prod_def)

text \<open>
  Claim C8 as stated fails at creation: \<open>Comment.is_approved\<close> is declared with
  \<open>default=True\<close> and \<open>CommentService.create\<close> does not set it, so a new comment is
  approved, not pending.
\<close>

theorem comment_created_approved_counterexample:
  "is_approved (fst (CommentService_create
      \<lparr>cmc_content = ''hello there'', cmc_post_id = 1, cmc_parent_id = None\<rparr> (Some 2) 100 []))"
  by (simp add: CommentService_create_def Let_def)

text \<open>
  Claim C8 (amended).  Every newly created comment starts approved; \<open>approve\<close> makes a
  comment approved; and no other operation on an existing comment (\<open>update\<close>, \<open>pin\<close>,
  \<open>unpin\<close>, \<open>vote\<close>) changes \<open>is_approved\<close>, so a comment that is not approved becomes
  approved only through \<open>approve\<close>.
\<close>

theorem comment_approval:
  "is_approved (fst (CommentService_create data author_id now tbl))
   \<and> snd (CommentService_create data author_id now tbl)
       = tbl @ [fst (CommentService_create data author_id now tbl)]
   \<and> is_approved (CommentService_approve c)
   \<and> is_approved (CommentService_update c new_content) = is_approved c
   \<and> is_approved (CommentService_pin c) = is_approved c
   \<and> is_approved (CommentService_unpin c) = is_approved c
   \<and> (\<forall>c' votes'. vote c v user_id ip votes = Inr (c', votes') \<longrightarrow> is_approved c' = is_approved c)"
proof -
  have "is_approved c' = is_approved c" if "vote c v user_id ip votes = Inr (c', votes')" for c' votes'
    using that
    by (auto simp: vote_def Let_def split: sum.splits option.splits if_splits)
  then show ?thesis
    by (simp add: CommentService_create_def CommentService_approve_def CommentService_update_def
          CommentService_pin_def CommentService_unpin_def Let_def)
qed

text \<open>A like on an unapproved comment is counted and leaves the comment unapproved.\<close>

theorem comment_approval_witness:
  "\<exists>c' votes'. vote \<lparr>comment_id = 3, content = ''spam'', comment_post_id = 1, comment_parent_id = None,
                     comment_author_id = None, is_approved = False, is_pinned = False,
                     likes_count = 0, dislikes_count = 0, created_at = 20\<rparr>
                  1 (Some 1) ''10.0.0.1'' [] = Inr (c', votes')
      \<and> likes_count c' = 1 \<and> \<not> is_approved c'"
  using comment_approval [of _ _ _ _
      "\<lparr>comment_id = 3, content = ''spam'', comment_post_id = 1, comment_parent_id = None,
        comment_author_id = None, is_approved = False, is_pinned = False,
        likes_count = 0, dislikes_count = 0, created_at = 20\<rparr>" _ 1 "Some 1" "''10.0.0.1''" "[]"]
  by (simp add: vote_def)

section \<open>Proofs: category tree, update and deletion\<close>

termination unique_slug_update
proof (relation "measure (\<lambda>(slug_of, id_of, tbl, own_id, base_slug, new_slug, counter).
          card (taken_from (map slug_of tbl) base_slug counter)
          + (if new_slug \<in> set (map slug_of tbl) then 1 else 0))", goal_cases)
  case 1
  show ?case by simp
next
  case (2 slug_of id_of tbl own_id base_slug new_slug counter x2 existing)
  have "new_slug \<in> set (map slug_of tbl)"
    using 2 by (auto dest: lookup_Some_taken)
  then show ?case
    using card_taken_from_Suc [of "map slug_of tbl" base_slug counter] by simp
qed

declare unique_slug_update.simps [simp del]

lemma category_order_key_le:
  "category_order_key a \<le> category_order_key b \<longleftrightarrow>
     position a < position b \<or> (position a = position b \<and> category_name a \<le> category_name b)"
  by (auto simp: category_order_key_def less_eq_prod_def)

text \<open>
  Claim C6 as stated fails for children: the \<open>is_active\<close> filter is applied to the root
  query only, and \<open>children\<close> loads every row with that parent.  In the example tables the
  active root 1 is returned with its inactive child 2.
\<close>

theorem get_tree_inactive_child_counterexample:
  "map (\<lambda>(c, cs). (category_id c, map (\<lambda>x. (category_id x, is_active x)) cs))
     (CategoryService_get_tree True (categories example_db)) = [(1, [(2, False)])]"
  by (simp add: CategoryService_get_tree_def example_db_def children_def)

text \<open>
  Claim C6 (amended).  For every category table, the nodes \<open>get_tree\<close> returns are exactly
  the root categories, and with \<open>active_only\<close> exactly the active ones, so no inactive
  category is returned as a root; the roots are ordered by \<open>position\<close> ascending and then
  by name ascending; and the children list of each root holds every category whose
  \<open>parent_id\<close> is that root, active or not.
\<close>

theorem get_tree_roots:
  "(\<forall>(c, cs) \<in> set (CategoryService_get_tree active_only tbl).
       c \<in> set tbl \<and> parent_id c = None \<and> (active_only \<longrightarrow> is_active c)
       \<and> cs = filter (\<lambda>x. parent_id x = Some (category_id c)) tbl)
   \<and> set (map fst (CategoryService_get_tree active_only tbl))
       = {c \<in> set tbl. parent_id c = None \<and> (active_only \<longrightarrow> is_active c)}
   \<and> sorted_wrt (\<lambda>a b. position a < position b
                        \<or> (position a = position b \<and> category_name a \<le> category_name b))
         (map fst (CategoryService_get_tree active_only tbl))"
proof (intro conjI)
  let ?roots = "filter (\<lambda>c. parent_id c = None \<and> (active_only \<longrightarrow> is_active c)) tbl"
  have fsts: "map fst (CategoryService_get_tree active_only tbl) = sort_key category_order_key ?roots"
    by (simp add: CategoryService_get_tree_def comp_def)
  show "\<forall>(c, cs) \<in> set (CategoryService_get_tree active_only tbl).
       c \<in> set tbl \<and> parent_id c = None \<and> (active_only \<longrightarrow> is_active c)
       \<and> cs = filter (\<lambda>x. parent_id x = Some (category_id c)) tbl"
    by (auto simp: CategoryService_get_tree_def children_def)
  show "set (map fst (CategoryService_get_tree active_only tbl))
       = {c \<in> set tbl. parent_id c = None \<and> (active_only \<longrightarrow> is_active c)}"
    unfolding fsts by auto
  have "sorted (map category_order_key (sort_key category_order_key ?roots))"
    by (rule sorted_sort_key)
  then show "sorted_wrt (\<lambda>a b. position a < position b
                        \<or> (position a = position b \<and> category_name a \<le> category_name b))
         (map fst (CategoryService_get_tree active_only tbl))"
    unfolding fsts by (simp add: sorted_map category_order_key_le)
qed

text \<open>
  Without the filter the example tables give both roots, \<open>News\<close> (position 0) before
  \<open>Drafts\<close> (position 1).
\<close>

theorem get_tree_roots_witness:
  "map (\<lambda>(c, cs). (category_name c, map category_name cs))
     (CategoryService_get_tree False (categories example_db))
     = [(''News'', [''Archive'']), (''Drafts'', [])]
   \<and> set (map fst (CategoryService_get_tree True (categories example_db)))
       = {c \<in> set (categories example_db). parent_id c = None \<and> is_active c}"
  using get_tree_roots [of False "categories example_db"]
    get_tree_roots [of True "categories example_db"]
  by (simp add: CategoryService_get_tree_def example_db_def children_def
        category_order_key_def less_eq_prod_def)

text \<open>The check the route does make: a category is not accepted as its own parent.\<close>

lemma update_category_self_parent:
  assumes "CategoryService_get_by_id cid (categories d) = Inr (Some c)" and "cid \<noteq> 0"
  shows "update_category slugify cid (data\<lparr>cu_parent_id := Some (Some cid)\<rparr>) d
           = Inl HTTP_400_BAD_REQUEST"
  using assms by (simp add: update_category_def)

text \<open>
  Claim C7 fails on the code for cycles longer than one step.  In the example tables
  category 2 has parent 1; the request that sets the parent of category 1 to 2 is
  accepted, and afterwards each of the two categories is the parent of the other.
\<close>

theorem update_category_accepts_cycle:
  "(case update_category (\<lambda>t. t) 1
           \<lparr>cu_name = None, cu_parent_id = Some (Some 2), cu_is_active = None,
            cu_show_in_menu = None, cu_position = None\<rparr> example_db of
      Inl e \<Rightarrow> Inl e
    | Inr (c, d') \<Rightarrow> Inr (map (\<lambda>x. (category_id x, parent_id x)) (categories d')))
   = Inr [(1, Some 2), (2, Some 1), (3, None)]"
  by (simp add: update_category_def CategoryService_get_by_id_def CategoryService_update_def
        example_db_def Let_def)

text \<open>
  No write of the post service touches the \<open>categories\<close> table: whatever \<open>create\<close> and
  \<open>update\<close> return, every \<open>posts_count\<close> is as before.
\<close>

lemma PostService_create_categories:
  "PostService_create slugify data d = Inr (p, d') \<Longrightarrow> categories d' = categories d"
  using PostService_create_returns [of slugify data d p d'] by simp

lemma PostService_update_categories:
  assumes "PostService_update slugify loaded p data d = Inr (p', d')"
  shows "categories d' = categories d"
proof -
  have sc: "categories d2 = categories d1"
    if "PostService_set_categories loaded q ids d1 = Inr d2" for q ids d1 d2
    using that by (auto simp: PostService_set_categories_def Let_def split: if_splits)
  have st: "categories d2 = categories d1"
    if "PostService_set_tags slugify loaded q names d1 = Inr d2" for q names d1 d2
    using that
    by (auto simp: PostService_set_tags_def Let_def split: sum.splits prod.splits if_splits)
  from assms show ?thesis
    by (auto simp: PostService_update_def Let_def split: sum.splits option.splits if_splits
             dest!: sc st)
qed

text \<open>
  A creation with categories does not get as far as an association: the assignment to
  the collection of the post just flushed raises.
\<close>

lemma PostService_create_with_categories:
  assumes "distinct (map post_slug (posts d))" and "pc_category_ids data \<noteq> []"
  shows "PostService_create slugify data d = Inl MissingGreenlet"
proof -
  from unique_slug_first [OF assms(1), of "slugify (pc_title data)"]
  obtain r where "unique_slug post_slug (posts d) (slugify (pc_title data))
                    (slugify (pc_title data)) 1 = Inr r"
    by blast
  then show ?thesis
    using assms(2) by (simp add: PostService_create_def Let_def set_categories_unloaded)
qed

text \<open>The two counter helpers do what the claim says; no service or route calls them.\<close>

lemma posts_count_helpers:
  "posts_count (CategoryService_increment_posts_count c) = posts_count c + 1"
  "0 < posts_count c \<Longrightarrow> posts_count (CategoryService_decrement_posts_count c) = posts_count c - 1"
  "posts_count c = 0 \<Longrightarrow> posts_count (CategoryService_decrement_posts_count c) = 0"
  "0 \<le> posts_count c \<Longrightarrow> 0 \<le> posts_count (CategoryService_decrement_posts_count c)"
  by (simp_all add: CategoryService_increment_posts_count_def
        CategoryService_decrement_posts_count_def)

text \<open>
  Claim C9 fails on the code where a post becomes associated with a category.  On the
  example tables post 1 is fetched by \<open>get_by_id\<close> and updated with \<open>category_ids = [1]\<close>:
  the update returns and the association row \<open>(1, 1)\<close> is there, and the \<open>posts_count\<close> of
  category 1 is 0 as before.  The post is fetched again and updated with
  \<open>category_ids = []\<close>: the row is removed, and again every \<open>posts_count\<close> is as it was.
\<close>

theorem update_post_keeps_posts_count:
  "(case PostService_get_by_id 1 (posts example_db) of
      Inl e \<Rightarrow> Inl e
    | Inr None \<Rightarrow> Inl HTTP_404_NOT_FOUND
    | Inr (Some p) \<Rightarrow>
        (case PostService_update (\<lambda>t. t) True p
                \<lparr>pu_title = None, pu_category_ids = Some [1], pu_tags = None\<rparr> example_db of
           Inl e \<Rightarrow> Inl e
         | Inr (p1, d1) \<Rightarrow>
             (case PostService_get_by_id 1 (posts d1) of
                Inl e \<Rightarrow> Inl e
              | Inr None \<Rightarrow> Inl HTTP_404_NOT_FOUND
              | Inr (Some p') \<Rightarrow>
                  (case PostService_update (\<lambda>t. t) True p'
                          \<lparr>pu_title = None, pu_category_ids = Some [], pu_tags = None\<rparr> d1 of
                     Inl e \<Rightarrow> Inl e
                   | Inr (p2, d2) \<Rightarrow>
                       Inr (post_categories d1,
                            map (\<lambda>c. (category_id c, posts_count c)) (categories d1),
                            post_categories d2,
                            map (\<lambda>c. (category_id c, posts_count c)) (categories d2))))))
   = Inr ([(1, 1)], [(1, 0), (2, 0), (3, 2)], [], [(1, 0), (2, 0), (3, 2)])"
  by (simp add: PostService_get_by_id_def PostService_update_def PostService_set_categories_def
        example_db_def Let_def)

lemma get_by_id_Some:
  "CategoryService_get_by_id k tbl = Inr (Some c) \<Longrightarrow> c \<in> set tbl \<and> category_id c = k"
proof -
  assume "CategoryService_get_by_id k tbl = Inr (Some c)"
  then have "filter (\<lambda>c. category_id c = k) tbl = [c]"
    unfolding CategoryService_get_by_id_def
    by (cases "filter (\<lambda>c. category_id c = k) tbl" rule: scalar_one_or_none.cases) auto
  then have "c \<in> set (filter (\<lambda>c. category_id c = k) tbl)" by simp
  then show ?thesis by simp
qed

lemma get_by_id_distinct:
  assumes "distinct (map category_id tbl)" and "c \<in> set tbl"
  shows "CategoryService_get_by_id (category_id c) tbl = Inr (Some c)"
proof -
  have "filter (\<lambda>x. category_id x = category_id c) tbl = [c]"
    using assms
  proof (induction tbl)
    case Nil
    then show ?case by simp
  next
    case (Cons a tbl)
    show ?case
    proof (cases "a = c")
      case True
      have "category_id x \<noteq> category_id c" if "x \<in> set tbl" for x
        using Cons.prems(1) True that by (metis distinct.simps(2) imageI list.simps(9) set_map)
      then have "filter (\<lambda>x. category_id x = category_id c) tbl = []"
        by (simp add: filter_empty_conv)
      with True show ?thesis by simp
    next
      case False
      with Cons.prems have c: "c \<in> set tbl" and d: "distinct (map category_id tbl)" by simp_all
      have "category_id a \<noteq> category_id c"
        using Cons.prems(1) c by (metis distinct.simps(2) imageI list.simps(9) set_map)
      with Cons.IH [OF d c] show ?thesis by simp
    qed
  qed
  then show ?thesis by (simp add: CategoryService_get_by_id_def)
qed

text \<open>
  No write of the category service makes a \<open>posts_count\<close> negative: a new row starts at
  0, \<open>update\<close> and \<open>delete\<close> keep the counts, and the helpers increment or clamp.
\<close>

lemma posts_count_nonneg_preserved:
  assumes "\<forall>x \<in> set (categories d). 0 \<le> posts_count x"
  shows "CategoryService_create slugify cdata d = Inr (c, d')
           \<Longrightarrow> \<forall>x \<in> set (categories d'). 0 \<le> posts_count x"
    and "c \<in> set (categories d) \<Longrightarrow> CategoryService_update slugify c udata d = Inr (c', d')
           \<Longrightarrow> \<forall>x \<in> set (categories d'). 0 \<le> posts_count x"
    and "\<forall>x \<in> set (categories (CategoryService_delete c d)). 0 \<le> posts_count x"
    and "0 \<le> posts_count c \<Longrightarrow> 0 \<le> posts_count (CategoryService_increment_posts_count c)"
    and "0 \<le> posts_count c \<Longrightarrow> 0 \<le> posts_count (CategoryService_decrement_posts_count c)"
proof -
  show "CategoryService_create slugify cdata d = Inr (c, d')
           \<Longrightarrow> \<forall>x \<in> set (categories d'). 0 \<le> posts_count x"
    using assms
    by (auto simp: CategoryService_create_def Let_def split: sum.splits if_splits)
  show "c \<in> set (categories d) \<Longrightarrow> CategoryService_update slugify c udata d = Inr (c', d')
           \<Longrightarrow> \<forall>x \<in> set (categories d'). 0 \<le> posts_count x"
    using assms
    by (auto simp: CategoryService_update_def Let_def split: sum.splits if_splits)
  show "\<forall>x \<in> set (categories (CategoryService_delete c d)). 0 \<le> posts_count x"
    using assms by (auto simp: CategoryService_delete_def)
  show "0 \<le> posts_count c \<Longrightarrow> 0 \<le> posts_count (CategoryService_increment_posts_count c)"
    by (simp add: CategoryService_increment_posts_count_def)
  show "0 \<le> posts_count c \<Longrightarrow> 0 \<le> posts_count (CategoryService_decrement_posts_count c)"
    by (simp add: CategoryService_decrement_posts_count_def)
qed

text \<open>
  Claim C10.  On a table whose ids are a primary key and whose \<open>posts_count\<close> values are
  not negative (they start at 0 and only the clamped helpers write them): deleting a
  category whose \<open>posts_count\<close> is greater than 0 is answered with the error 400 and
  leaves every table as it was, as every request that ends in an error does; and a
  request that succeeds has deleted a category whose \<open>posts_count\<close> was 0.
\<close>

theorem delete_category_guard:
  assumes "distinct (map category_id (categories d))"
    and "\<forall>c \<in> set (categories d). 0 \<le> posts_count c"
  shows "(\<forall>c \<in> set (categories d). 0 < posts_count c \<longrightarrow>
            delete_category (category_id c) d = (Inl HTTP_400_BAD_REQUEST, d))
       \<and> (\<forall>e d'. delete_category cid d = (Inl e, d') \<longrightarrow> d' = d)
       \<and> (\<forall>msg d'. delete_category cid d = (Inr msg, d') \<longrightarrow>
            (\<exists>c \<in> set (categories d). category_id c = cid \<and> posts_count c = 0
                \<and> d' = CategoryService_delete c d))"
proof (intro conjI ballI allI impI)
  fix c
  assume "c \<in> set (categories d)" and "0 < posts_count c"
  then show "delete_category (category_id c) d = (Inl HTTP_400_BAD_REQUEST, d)"
    using get_by_id_distinct [OF assms(1)] by (simp add: delete_category_def)
next
  fix e d'
  assume "delete_category cid d = (Inl e, d')"
  then show "d' = d"
    by (auto simp: delete_category_def split: sum.splits option.splits if_splits)
next
  fix msg d'
  assume ok: "delete_category cid d = (Inr msg, d')"
  then obtain c where c: "CategoryService_get_by_id cid (categories d) = Inr (Some c)"
    and le: "\<not> 0 < posts_count c" and d': "d' = CategoryService_delete c d"
    by (auto simp: delete_category_def split: sum.splits option.splits if_splits)
  from get_by_id_Some [OF c] have mem: "c \<in> set (categories d)" and k: "category_id c = cid"
    by simp_all
  from assms(2) mem have "0 \<le> posts_count c" by blast
  with le have "posts_count c = 0" by simp
  with mem k d' show "\<exists>c \<in> set (categories d). category_id c = cid \<and> posts_count c = 0
                \<and> d' = CategoryService_delete c d"
    by blast
qed

text \<open>
  On the example tables category 3, with two posts, cannot be deleted; category 1, with
  none, can, and its child 2 becomes a root.
\<close>

theorem delete_category_guard_witness:
  "delete_category 3 example_db = (Inl HTTP_400_BAD_REQUEST, example_db)
   \<and> (\<exists>c \<in> set (categories example_db). category_id c = 1 \<and> posts_count c = 0
        \<and> snd (delete_category 1 example_db) = CategoryService_delete c example_db)
   \<and> map (\<lambda>x. (category_id x, parent_id x)) (categories (snd (delete_category 1 example_db)))
       = [(2, None), (3, None)]"
proof -
  have a: "distinct (map category_id (categories example_db))"
    by (simp add: example_db_def)
  have b: "\<forall>c \<in> set (categories example_db). 0 \<le> posts_count c"
    by (simp add: example_db_def)
  have ok: "delete_category 1 example_db
              = (Inr ''Category deleted successfully'', snd (delete_category 1 example_db))"
    by (simp add: delete_category_def CategoryService_get_by_id_def example_db_def)
  have c3: "\<lparr>category_id = 3, category_name = ''Drafts'', category_slug = ''drafts'', parent_id = None,
          is_active = False, show_in_menu = False, position = 1, posts_count = 2\<rparr>
          \<in> set (categories example_db)"
    by (simp add: example_db_def)
  note g = delete_category_guard [OF a b, of 1]
  from g c3 have "delete_category 3 example_db = (Inl HTTP_400_BAD_REQUEST, example_db)"
    by fastforce
  moreover from g ok
  have "\<exists>c \<in> set (categories example_db). category_id c = 1 \<and> posts_count c = 0
        \<and> snd (delete_category 1 example_db) = CategoryService_delete c example_db"
    by blast
  moreover have "map (\<lambda>x. (category_id x, parent_id x)) (categories (snd (delete_category 1 example_db)))
       = [(2, None), (3, None)]"
    by (simp add: delete_category_def CategoryService_get_by_id_def CategoryService_delete_def
          example_db_def)
  ultimately show ?thesis by blast
qed

end
